theory Spec2Isabelle
  imports Main
begin

section \<open>Strings: \<open>strings.TrimSpace\<close> and \<open>strings.HasPrefix\<close>\<close>

text \<open>
  A Go string is a sequence of bytes, here a \<open>char list\<close>.
  \<open>strings.TrimSpace\<close> removes the leading and the trailing white-space runes. The
  ASCII ones are the six bytes of Go's \<open>asciiSpace\<close> table; beyond ASCII,
  \<open>unicode.IsSpace\<close> holds for U+0085, U+00A0, U+1680, U+2000..U+200A, U+2028, U+2029,
  U+202F, U+205F and U+3000, which appear in a string as their UTF-8 encodings. A byte
  that starts no valid encoding decodes to \<open>RuneError\<close>, which is no space, so trimming
  stops there.
\<close>

definition asciiSpace :: "char \<Rightarrow> bool" where
  "asciiSpace c = (c = CHR 0x09 \<or> c = CHR 0x0A \<or> c = CHR 0x0B \<or> c = CHR 0x0C
                    \<or> c = CHR 0x0D \<or> c = CHR 0x20)"

definition unicodeSpaces :: "string list" where
  "unicodeSpaces =
     [[CHR 0xC2, CHR 0x85], [CHR 0xC2, CHR 0xA0], [CHR 0xE1, CHR 0x9A, CHR 0x80],
      [CHR 0xE2, CHR 0x80, CHR 0x80], [CHR 0xE2, CHR 0x80, CHR 0x81],
      [CHR 0xE2, CHR 0x80, CHR 0x82], [CHR 0xE2, CHR 0x80, CHR 0x83],
      [CHR 0xE2, CHR 0x80, CHR 0x84], [CHR 0xE2, CHR 0x80, CHR 0x85],
      [CHR 0xE2, CHR 0x80, CHR 0x86], [CHR 0xE2, CHR 0x80, CHR 0x87],
      [CHR 0xE2, CHR 0x80, CHR 0x88], [CHR 0xE2, CHR 0x80, CHR 0x89],
      [CHR 0xE2, CHR 0x80, CHR 0x8A], [CHR 0xE2, CHR 0x80, CHR 0xA8],
      [CHR 0xE2, CHR 0x80, CHR 0xA9], [CHR 0xE2, CHR 0x80, CHR 0xAF],
      [CHR 0xE2, CHR 0x81, CHR 0x9F], [CHR 0xE3, CHR 0x80, CHR 0x80]]"

definition HasPrefix :: "string \<Rightarrow> string \<Rightarrow> bool" where
  "HasPrefix s p = (take (length p) s = p)"

text \<open>The byte width of the white-space rune at the front of \<open>s\<close>, 0 when there is none.\<close>

definition spaceWidth :: "string \<Rightarrow> nat" where
  "spaceWidth s =
     (case s of
        [] \<Rightarrow> 0
      | c # _ \<Rightarrow>
          if asciiSpace c then 1
          else (case filter (HasPrefix s) unicodeSpaces of [] \<Rightarrow> 0 | p # _ \<Rightarrow> length p))"

text \<open>The same at the end of \<open>s\<close> (\<open>utf8.DecodeLastRuneInString\<close>).\<close>

definition spaceWidthEnd :: "string \<Rightarrow> nat" where
  "spaceWidthEnd s =
     (case rev s of
        [] \<Rightarrow> 0
      | c # _ \<Rightarrow>
          if asciiSpace c then 1
          else (case filter (\<lambda>p. HasPrefix (rev s) (rev p)) unicodeSpaces of
                  [] \<Rightarrow> 0 | p # _ \<Rightarrow> length p))"

text \<open>
  The two scans of \<open>TrimSpace\<close>, with the number of bytes still to look at as the
  recursion's argument (the scans stop at the first rune that is no space).
\<close>

fun trimLeft :: "nat \<Rightarrow> string \<Rightarrow> string" where
  "trimLeft 0 s = s"
| "trimLeft (Suc n) s =
     (if spaceWidth s = 0 then s else trimLeft n (drop (spaceWidth s) s))"

fun trimRight :: "nat \<Rightarrow> string \<Rightarrow> string" where
  "trimRight 0 s = s"
| "trimRight (Suc n) s =
     (if spaceWidthEnd s = 0 then s
      else trimRight n (take (length s - spaceWidthEnd s) s))"

definition TrimSpace :: "string \<Rightarrow> string" where
  "TrimSpace s = (let t = trimLeft (length s) s in trimRight (length t) t)"

section \<open>Package \<open>healthcheck\<close>\<close>

text \<open>
  What the network answers to the one GET of \<open>Check\<close>: the request cannot be built,
  \<open>client.Do\<close> fails (which covers the timeout), or a response arrives with a status
  code and the bytes that could be read from its body.
\<close>

datatype http_outcome =
    NewRequestFails string
  | DoFails string
  | Response int string

text \<open>
  \<open>Result.Err\<close> is a text built by \<open>fmt.Sprintf\<close>; the model keeps which text it is and
  the values formatted into it. \<open>NoErr\<close> is the empty string.
\<close>

datatype health_err =
    NoErr
  | NewRequestErr string        \<comment> \<open>\<open>"new request: %v"\<close>\<close>
  | HttpDoErr string            \<comment> \<open>\<open>"http do: %v"\<close>\<close>
  | UnexpectedEgressIP string "string list"
      \<comment> \<open>\<open>"unexpected egress ip %q (expected one of %v)"\<close>\<close>

text \<open>\<open>healthcheck.Result\<close>; the latency plays no part in any decision and is left out.\<close>

record health_Result =
  OK :: bool
  URL :: string
  StatusCode :: int
  Body :: string
  Err :: health_err

definition Check :: "string \<Rightarrow> http_outcome \<Rightarrow> health_Result" where
  "Check url net =
     (let res = \<lparr>OK = False, URL = url, StatusCode = 0, Body = [], Err = NoErr\<rparr> in
      case net of
        NewRequestFails e \<Rightarrow> res\<lparr>Err := NewRequestErr e\<rparr>
      | DoFails e \<Rightarrow> res\<lparr>Err := HttpDoErr e\<rparr>
      | Response code raw \<Rightarrow>
          (let res = res\<lparr>StatusCode := code\<rparr>;
               res = res\<lparr>Body := TrimSpace (take (4 * 1024) raw)\<rparr>
           in if code = 200 \<and> Body res \<noteq> [] then res\<lparr>OK := True\<rparr> else res))"

definition CheckExpected :: "string \<Rightarrow> string list \<Rightarrow> http_outcome \<Rightarrow> health_Result" where
  "CheckExpected url expectedIPs net =
     (let res = Check url net in
      if \<not> OK res then res
      else if length expectedIPs = 0 then res
      else (let body = TrimSpace (Body res) in
            if \<exists>ip \<in> set expectedIPs. TrimSpace ip = body then res
            else res\<lparr>OK := False, Err := UnexpectedEgressIP body expectedIPs\<rparr>))"

section \<open>Package \<open>control\<close>\<close>

text \<open>
  \<open>time.Duration\<close> is a number of nanoseconds; so is the clock of the model.
\<close>

definition Millisecond :: int where
  "Millisecond = 1000000"

definition Second :: int where
  "Second = 1000 * Millisecond"

text \<open>
  How a finished process ended (\<open>os.ProcessState\<close>): it exited with a status, which the
  operating system keeps in 0..255, or a signal terminated it.
  \<open>(*os.ProcessState).ExitCode\<close> is documented to return the exit status of an exited
  process and -1 for one that was terminated by a signal.
\<close>

datatype ProcessState = Exited nat | Signaled

fun ProcessState_ExitCode :: "ProcessState \<Rightarrow> int" where
  "ProcessState_ExitCode (Exited n) = int n"
| "ProcessState_ExitCode Signaled = - 1"

text \<open>
  The error of \<open>cmd.Run()\<close>: \<open>nil\<close>; an \<open>*exec.ExitError\<close>, when the command ran and
  did not succeed; or an error of another type, which is what \<open>cmd.Run()\<close> returns when
  the command could not be started (file not found, permission denied).
\<close>

datatype run_error = RunNil | ExitError ProcessState | OtherError

fun exitCode :: "run_error \<Rightarrow> int" where
  "exitCode RunNil = 0"
| "exitCode (ExitError ee) = ProcessState_ExitCode ee"
| "exitCode OtherError = - 1"

text \<open>
  What one execution of an external command gives back to \<open>RunScript\<close>: the error of
  \<open>cmd.Run()\<close>, the bytes captured on its two streams, and whether the context of the
  call had passed its deadline when \<open>RunScript\<close> looked at \<open>cctx.Err()\<close>.
\<close>

record cmd_env =
  run_err :: run_error
  captured_stdout :: string
  captured_stderr :: string
  deadline_exceeded :: bool

record control_Result =
  ExitCode :: int
  Stdout :: string
  Stderr :: string

datatype control_error =
    CommandTimedOut int string   \<comment> \<open>\<open>"command timed out after %s: %s"\<close>\<close>
  | CommandFailed int string     \<comment> \<open>\<open>"command failed (exit=%d): %s"\<close>\<close>

text \<open>
  \<open>RunScript\<close> returns a pointer to its result and an error; the pointer is an option
  here, \<open>None\<close> for \<open>nil\<close>. The arguments go to the command and enter neither the
  result nor the error; the log line and the debug dumps change nothing.
\<close>

definition RunScript ::
  "string \<Rightarrow> int \<Rightarrow> cmd_env \<Rightarrow> control_Result option \<times> control_error option" where
  "RunScript path timeout env =
     (let err = run_err env;
          res = \<lparr>ExitCode = exitCode err,
                 Stdout = TrimSpace (captured_stdout env),
                 Stderr = TrimSpace (captured_stderr env)\<rparr>
      in if deadline_exceeded env then (Some res, Some (CommandTimedOut timeout path))
         else if err \<noteq> RunNil then (Some res, Some (CommandFailed (ExitCode res) path))
         else (Some res, None))"

section \<open>Package \<open>config\<close>\<close>

text \<open>
  The fields of \<open>Config\<close> that the supervisor and the watchdog read. A field of type
  \<open>*bool\<close> is an option. The paths of the pid file and of the log file are fixed once
  the configuration is loaded; the files themselves are part of the world below.
\<close>

record Config =
  HealthCheckURL :: string
  CheckInterval :: int
  CommandTimeout :: int
  SingBoxAdoptExternal :: "bool option"
  SingBoxPath :: string
  SingBoxStartTimeout :: int
  SingBoxStopTimeout :: int
  FailureThreshold :: int
  RecoverCooldown :: int
  MaxRecoveries :: int
  HealthTimeout :: int
  VPNRouterPFApplyPath :: string
  VPNServerIPs :: "string list"
  WANDNSIPs :: "string list"
  AllowWANNTP :: bool

text \<open>
  \<open>applyDefaults\<close> is a sequence of independent statements
  \<open>if c.F == <zero value> { c.F = <default> }\<close>, one per field.
\<close>

definition applyDefaults :: "Config \<Rightarrow> Config" where
  "applyDefaults c =
     c\<lparr>HealthCheckURL :=
         (if HealthCheckURL c = [] then ''https://api.ipify.org?format=text''
          else HealthCheckURL c),
       CheckInterval := (if CheckInterval c = 0 then 10 * Second else CheckInterval c),
       CommandTimeout := (if CommandTimeout c = 0 then 20 * Second else CommandTimeout c),
       SingBoxPath := (if SingBoxPath c = [] then ''/usr/local/bin/sing-box'' else SingBoxPath c),
       SingBoxStartTimeout :=
         (if SingBoxStartTimeout c = 0 then 8 * Second else SingBoxStartTimeout c),
       SingBoxStopTimeout :=
         (if SingBoxStopTimeout c = 0 then 8 * Second else SingBoxStopTimeout c),
       SingBoxAdoptExternal :=
         (if SingBoxAdoptExternal c = None then Some True else SingBoxAdoptExternal c),
       FailureThreshold := (if FailureThreshold c = 0 then 3 else FailureThreshold c),
       RecoverCooldown := (if RecoverCooldown c = 0 then 5 * Second else RecoverCooldown c),
       MaxRecoveries := (if MaxRecoveries c = 0 then 5 else MaxRecoveries c),
       HealthTimeout := (if HealthTimeout c = 0 then 5 * Second else HealthTimeout c)\<rparr>"

definition AdoptExternal :: "Config \<Rightarrow> bool" where
  "AdoptExternal c = (case SingBoxAdoptExternal c of None \<Rightarrow> True | Some v \<Rightarrow> v)"

section \<open>The world of the supervisor\<close>

text \<open>
  Package \<open>singboxctl\<close> works on the operating system: a clock, the network interfaces,
  the pid file (the ownership record), the process table and the signals it sends.
  The model passes this world through every function as an explicit state. What the
  code only observes (the interfaces at each moment, which processes obey which
  signal, what \<open>pgrep\<close> prints, whether a start succeeds, whether the pid file can be
  written and removed, how a run of the pf_apply script goes) is a field that no
  function changes, given for each moment of the clock where the code can ask more than
  once; the theorems hold for every value of these fields. What the code does to the
  world is kept in three logs: the signals sent, the processes started and the runs of
  the pf_apply script.

  Every caller in the repository passes \<open>context.Background()\<close>, which is never
  cancelled, as the context of \<open>EnsureRunning\<close>, \<open>doRecovery\<close> and \<open>status.Collect\<close>. So
  \<open>exec.CommandContext\<close> kills a child only where a deadline is added to that context,
  which is in \<open>control.RunScript\<close>; the contexts are not part of the model.
\<close>

datatype signal = SIGTERM | SIGKILL

text \<open>
  The pid file as \<open>readPID\<close> sees it: missing (or unreadable), holding a text that
  \<open>strconv.Atoi\<close> rejects after trimming, or holding the decimal text of a number.
  \<open>writePID\<close> writes the decimal text of the pid and a newline, which reads back as
  that number.
\<close>

datatype pidfile_content = NoFile | Unparsable | PidText int

text \<open>
  An address of an interface: an \<open>*net.IPNet\<close> whose IP is IPv4, one whose IP is not,
  or an address of another kind (no \<open>*net.IPNet\<close>, and its text is no CIDR).
\<close>

datatype addr = IPNet4 | IPNet6 | OtherAddr

text \<open>\<open>net.Interface\<close> with the result of its \<open>Addrs()\<close>, \<open>None\<close> when that call fails.\<close>

record Interface =
  Name :: string
  Addrs :: "addr list option"

record world =
  now :: int
    \<comment> \<open>\<open>time.Now()\<close>, in nanoseconds; only sleeping moves it\<close>
  interfaces :: "int \<Rightarrow> Interface list option"
    \<comment> \<open>\<open>net.Interfaces()\<close> at each moment, \<open>None\<close> when the call fails\<close>
  tun_name :: string
    \<comment> \<open>what \<open>tunNameFromConfig\<close> returns for the sing-box configuration, empty when it
        pins no name or cannot be read\<close>
  map_order :: "string list \<Rightarrow> string list"
    \<comment> \<open>the order in which a \<open>range\<close> over a map visits the given keys; the Go runtime
        chooses it\<close>
  pidfile :: pidfile_content
  pidfile_writable :: bool
    \<comment> \<open>whether \<open>os.WriteFile\<close> on the pid file succeeds\<close>
  pidfile_removable :: bool
    \<comment> \<open>whether \<open>os.Remove\<close> of the pid file succeeds\<close>
  alive :: "int set"
    \<comment> \<open>the pids for which \<open>kill(pid, 0)\<close> reports a process (no error, or \<open>EPERM\<close>)\<close>
  exits_on_term :: "int set"
    \<comment> \<open>the processes that end when they receive \<open>SIGTERM\<close>\<close>
  exits_on_kill :: "int set"
    \<comment> \<open>the processes that are gone when probed after \<open>SIGKILL\<close>\<close>
  pgrep_pids :: "int \<Rightarrow> int list option"
    \<comment> \<open>\<open>pgrep -af sing-box\<close> at each moment: the first field, as a number, of each line that contains
        \<open>"sing-box run -c <config path>"\<close> and has two fields, in the order of the
        output; \<open>None\<close> when \<open>pgrep\<close> fails\<close>
  spawn :: "int \<Rightarrow> nat option"
    \<comment> \<open>\<open>startSingBox\<close> at each moment: the pid of the process it starts (the pid of a
        started process is positive), \<open>None\<close> when the log file cannot be opened or
        \<open>cmd.Start\<close> fails\<close>
  started_pids :: "int list"
    \<comment> \<open>the pid of every process started so far, in order: sing-box by \<open>startSingBox\<close>,
        the pf_apply script by \<open>control.RunScript\<close>\<close>
  signals :: "(int \<times> signal) list"
    \<comment> \<open>every signal sent so far, with the target as given to \<open>kill\<close>: a pid, or its
        negation for the process group\<close>
  pf_apply_env :: "int \<Rightarrow> cmd_env"
    \<comment> \<open>how a run of the pf_apply script ends, at each moment\<close>
  pf_apply_child :: "int \<Rightarrow> (nat \<times> bool) option"
    \<comment> \<open>the process of a run of the pf_apply script, at each moment: its pid, and whether
        \<open>exec.CommandContext\<close> kills it because the deadline of the run passes before it
        ends; \<open>None\<close> when \<open>cmd.Run\<close> cannot start the script\<close>
  pf_apply_calls :: "string list list"
    \<comment> \<open>the arguments of every run of the pf_apply script so far\<close>

definition Sleep :: "int \<Rightarrow> world \<Rightarrow> world" where
  "Sleep d w = w\<lparr>now := now w + max 0 d\<rparr>"

definition processAlive :: "int \<Rightarrow> world \<Rightarrow> bool" where
  "processAlive pid w = (if pid \<le> 1 then False else pid \<in> alive w)"

text \<open>
  \<open>syscall.Kill(target, sig)\<close> and \<open>p.Signal(sig)\<close>; their errors are discarded by every
  caller. The signal is recorded, and the process \<open>\<bar>target\<bar>\<close> ends if it obeys the
  signal. (A signal to the group \<open>-pid\<close> reaches \<open>pid\<close> when it leads its group, as a
  started sing-box does; \<open>stopPID\<close> sends the direct signal right after it in any case.
  Other members of the group are not part of the model.)
\<close>

definition Kill :: "int \<Rightarrow> signal \<Rightarrow> world \<Rightarrow> world" where
  "Kill target sig w =
     (let obeys = (case sig of SIGTERM \<Rightarrow> \<bar>target\<bar> \<in> exits_on_term w
                             | SIGKILL \<Rightarrow> \<bar>target\<bar> \<in> exits_on_kill w)
      in w\<lparr>signals := signals w @ [(target, sig)],
            alive := (if obeys then alive w - {\<bar>target\<bar>} else alive w)\<rparr>)"

definition readPID :: "world \<Rightarrow> int \<times> bool" where
  "readPID w =
     (case pidfile w of
        NoFile \<Rightarrow> (0, False)
      | Unparsable \<Rightarrow> (0, False)
      | PidText n \<Rightarrow> if n \<le> 1 then (0, False) else (n, True))"

text \<open>
  \<open>writePID\<close>: \<open>True\<close> stands for a \<open>nil\<close> error. When \<open>os.WriteFile\<close> fails, the model
  leaves the pid file as it was.
\<close>

definition writePID :: "int \<Rightarrow> world \<Rightarrow> bool \<times> world" where
  "writePID pid w =
     (if pidfile_writable w then (True, w\<lparr>pidfile := PidText pid\<rparr>) else (False, w))"

text \<open>
  \<open>os.Remove\<close> of the pid file. Every caller discards its error: when the removal is
  refused, the caller goes on as if nothing had happened and the file stays as it is.
\<close>

definition removePidFile :: "world \<Rightarrow> world" where
  "removePidFile w = (if pidfile_removable w then w\<lparr>pidfile := NoFile\<rparr> else w)"

section \<open>Package \<open>singboxctl\<close>: interfaces\<close>

datatype sb_error =
    ListUtunBefore                 \<comment> \<open>\<open>"list utun (before): %w"\<close>\<close>
  | ListUtunAfter                  \<comment> \<open>\<open>"list utun (after): %w"\<close>\<close>
  | PreferredNotReady string       \<comment> \<open>\<open>"preferred utun %q not ready before timeout"\<close>\<close>
  | NoUtunWithin int               \<comment> \<open>\<open>"no utun with IPv4 within %s"\<close>\<close>
  | OwnedNoUtun sb_error           \<comment> \<open>\<open>"sing-box running (owned) but no utun: %w"\<close>\<close>
  | AdoptedNoUtun int sb_error     \<comment> \<open>\<open>"adopted external sing-box pid=%d but no utun: %w"\<close>\<close>
  | StartFailed                    \<comment> \<open>the error of \<open>startSingBox\<close>\<close>
  | PidfileWrite                   \<comment> \<open>\<open>"pidfile write: %w"\<close>\<close>
  | StartedNoUtun sb_error
      \<comment> \<open>\<open>"sing-box started but no utun appeared before timeout: %w"\<close>\<close>
  | FailedToStop int               \<comment> \<open>\<open>"failed to stop sing-box pid %d"\<close>\<close>

definition hasV4 :: "addr list \<Rightarrow> bool" where
  "hasV4 addrs = (IPNet4 \<in> set addrs)"

text \<open>\<open>utunHasIPv4\<close>: \<open>None\<close> stands for an error.\<close>

definition utunHasIPv4 :: "string \<Rightarrow> world \<Rightarrow> bool option" where
  "utunHasIPv4 name w =
     (case interfaces w (now w) of
        None \<Rightarrow> None
      | Some ifaces \<Rightarrow>
          (case find (\<lambda>ifi. Name ifi = name) ifaces of
             None \<Rightarrow> None
           | Some ifi \<Rightarrow> (case Addrs ifi of None \<Rightarrow> None | Some addrs \<Rightarrow> Some (hasV4 addrs))))"

text \<open>
  \<open>listUTUN\<close>: the keys of the two maps it builds, \<open>None\<close> for an error. An interface
  whose \<open>Addrs()\<close> fails is in the first map only.
\<close>

definition listUTUN :: "world \<Rightarrow> (string list \<times> string list) option" where
  "listUTUN w =
     (case interfaces w (now w) of
        None \<Rightarrow> None
      | Some ifaces \<Rightarrow>
          (let utuns = filter (\<lambda>iface. HasPrefix (Name iface) ''utun'') ifaces
           in Some (map Name utuns,
                    map Name (filter (\<lambda>iface. case Addrs iface of
                                                 None \<Rightarrow> False
                                               | Some addrs \<Rightarrow> \<not> hasV4 addrs) utuns))))"

text \<open>\<open>findUTUNWithIPv4\<close>: the first utun that has IPv4, \<open>None\<close> for an error.\<close>

definition findUTUNWithIPv4 :: "world \<Rightarrow> string option" where
  "findUTUNWithIPv4 w =
     (case interfaces w (now w) of
        None \<Rightarrow> None
      | Some ifaces \<Rightarrow>
          (case filter (\<lambda>ifc. HasPrefix (Name ifc) ''utun'' \<and>
                              (case Addrs ifc of None \<Rightarrow> False | Some addrs \<Rightarrow> hasV4 addrs))
                       ifaces of
             [] \<Rightarrow> None
           | ifc # _ \<Rightarrow> Some (Name ifc)))"

text \<open>
  \<open>pickAnyUTUNWithIPv4\<close> ranges over the map \<open>present\<close>; \<open>order\<close> is the order of that
  visit. The empty string is its "none".
\<close>

definition pickAnyUTUNWithIPv4 ::
  "(string list \<Rightarrow> string list) \<Rightarrow> string list \<Rightarrow> string list \<Rightarrow> string" where
  "pickAnyUTUNWithIPv4 order present noIPv4 =
     (case filter (\<lambda>ifname. ifname \<noteq> [] \<and> ifname \<notin> set noIPv4) (order present) of
        [] \<Rightarrow> []
      | ifname # _ \<Rightarrow> ifname)"

text \<open>
  The two polling loops of \<open>waitForUTUNReady\<close>. A \<open>nil\<close> map is \<open>None\<close>; looking a key up
  in it gives \<open>false\<close>.
\<close>

function waitPreferred :: "string \<Rightarrow> int \<Rightarrow> world \<Rightarrow> (sb_error + string) \<times> world" where
  "waitPreferred preferUTUN deadline w =
     (if now w < deadline then
        (if utunHasIPv4 preferUTUN w = Some True then (Inr preferUTUN, w)
         else waitPreferred preferUTUN deadline (Sleep (200 * Millisecond) w))
      else (Inl (PreferredNotReady preferUTUN), w))"
  by pat_completeness auto
termination
  by (relation "measure (\<lambda>(p, deadline, w). nat (deadline - now w))")
     (auto simp: Sleep_def Millisecond_def)

function waitAny ::
  "string list option \<Rightarrow> string list option \<Rightarrow> int \<Rightarrow> int \<Rightarrow> world
     \<Rightarrow> (sb_error + string) \<times> world" where
  "waitAny beforeSet beforeNoIPv4 timeout deadline w =
     (if now w < deadline then
        (case findUTUNWithIPv4 w of
           None \<Rightarrow> waitAny beforeSet beforeNoIPv4 timeout deadline (Sleep (200 * Millisecond) w)
         | Some utun \<Rightarrow>
             if utun \<noteq> [] then
               (case beforeSet of
                  None \<Rightarrow> (Inr utun, w)
                | Some before \<Rightarrow>
                    if utun \<notin> set before \<or>
                       (case beforeNoIPv4 of None \<Rightarrow> False | Some noIPv4 \<Rightarrow> utun \<in> set noIPv4)
                    then (Inr utun, w)
                    else (Inr utun, w))
             else waitAny beforeSet beforeNoIPv4 timeout deadline (Sleep (200 * Millisecond) w))
      else (Inl (NoUtunWithin timeout), w))"
  by pat_completeness auto
termination
  by (relation "measure (\<lambda>(b, n, t, deadline, w). nat (deadline - now w))")
     (auto simp: Sleep_def Millisecond_def)

definition waitForUTUNReady ::
  "string list option \<Rightarrow> string list option \<Rightarrow> int \<Rightarrow> string \<Rightarrow> world
     \<Rightarrow> (sb_error + string) \<times> world" where
  "waitForUTUNReady beforeSet beforeNoIPv4 timeout preferUTUN w =
     (let deadline = now w + timeout in
      if preferUTUN \<noteq> [] then waitPreferred preferUTUN deadline w
      else waitAny beforeSet beforeNoIPv4 timeout deadline w)"

section \<open>Package \<open>singboxctl\<close>: processes\<close>

record Status =
  Running :: bool
  PID :: int
  OwnedByUs :: bool
  AdoptedExternal :: bool
  NewUTUN :: string

text \<open>
  The polling loop of \<open>stopPID\<close>: \<open>True\<close> when it saw the process gone before the
  deadline (the \<open>return nil\<close> inside the loop).
\<close>

function stopPID_wait :: "int \<Rightarrow> int \<Rightarrow> world \<Rightarrow> bool \<times> world" where
  "stopPID_wait pid deadline w =
     (if now w < deadline then
        (if \<not> processAlive pid w then (True, w)
         else stopPID_wait pid deadline (Sleep (150 * Millisecond) w))
      else (False, w))"
  by pat_completeness auto
termination
  by (relation "measure (\<lambda>(p, deadline, w). nat (deadline - now w))")
     (auto simp: Sleep_def Millisecond_def)

text \<open>\<open>stopPID\<close>; \<open>os.FindProcess\<close> does not fail on Unix.\<close>

definition stopPID :: "int \<Rightarrow> world \<Rightarrow> sb_error option \<times> world" where
  "stopPID pid w0 =
     (let w1 = Kill (- pid) SIGTERM w0;
          w2 = Kill pid SIGTERM w1;
          deadline = now w2 + 3 * Second
      in case stopPID_wait pid deadline w2 of
           (True, w3) \<Rightarrow> (None, w3)
         | (False, w3) \<Rightarrow>
             (let w4 = Kill (- pid) SIGKILL w3;
                  w5 = Kill pid SIGKILL w4;
                  w6 = Sleep (200 * Millisecond) w5
              in if processAlive pid w6 then (Some (FailedToStop pid), w6) else (None, w6)))"

definition StopIfOwned :: "world \<Rightarrow> sb_error option \<times> world" where
  "StopIfOwned w =
     (case readPID w of
        (pid, ok) \<Rightarrow>
          if \<not> ok then (None, w)
          else if \<not> processAlive pid w then (None, removePidFile w)
          else (case stopPID pid w of
                  (Some err, w') \<Rightarrow> (Some err, w')
                | (None, w') \<Rightarrow> (None, removePidFile w')))"

definition Inspect :: "world \<Rightarrow> Status" where
  "Inspect w =
     (case readPID w of
        (pid, ok) \<Rightarrow>
          if \<not> ok then
            \<lparr>Running = False, PID = 0, OwnedByUs = False, AdoptedExternal = False, NewUTUN = []\<rparr>
          else if processAlive pid w then
            \<lparr>Running = True, PID = pid, OwnedByUs = True, AdoptedExternal = False, NewUTUN = []\<rparr>
          else
            \<lparr>Running = False, PID = pid, OwnedByUs = True, AdoptedExternal = False, NewUTUN = []\<rparr>)"

definition findExternalSingBoxPID :: "world \<Rightarrow> int \<times> bool" where
  "findExternalSingBoxPID w =
     (case pgrep_pids w (now w) of
        None \<Rightarrow> (0, False)
      | Some pids \<Rightarrow>
          (case filter (\<lambda>pid. processAlive pid w) pids of
             [] \<Rightarrow> (0, False)
           | pid # _ \<Rightarrow> (pid, True)))"

definition boolVal :: "bool option \<Rightarrow> bool \<Rightarrow> bool" where
  "boolVal p def = (case p of None \<Rightarrow> def | Some v \<Rightarrow> v)"

text \<open>
  \<open>startSingBox\<close>: the started process is in the process table from then on, and in the
  log of the processes started.
\<close>

definition startSingBox :: "world \<Rightarrow> (sb_error + int) \<times> world" where
  "startSingBox w =
     (case spawn w (now w) of
        None \<Rightarrow> (Inl StartFailed, w)
      | Some pid \<Rightarrow>
          (Inr (int pid), w\<lparr>alive := insert (int pid) (alive w),
                            started_pids := started_pids w @ [int pid]\<rparr>))"

text \<open>The closure \<open>pickReady\<close> of \<open>EnsureRunning\<close>, with the variables it captures.\<close>

definition pickReady ::
  "string list \<Rightarrow> string list \<Rightarrow> int \<Rightarrow> string \<Rightarrow> world \<Rightarrow> (sb_error + string) \<times> world" where
  "pickReady beforeSet beforeNoIPv4 timeout preferUTUN w =
     (case listUTUN w of
        None \<Rightarrow> (Inl ListUtunAfter, w)
      | Some (afterSet, afterNoIPv4) \<Rightarrow>
          (let utun = pickAnyUTUNWithIPv4 (map_order w) afterSet afterNoIPv4 in
           if utun \<noteq> [] then (Inr utun, w)
           else waitForUTUNReady (Some beforeSet) (Some beforeNoIPv4) timeout preferUTUN w))"

text \<open>
  Step 3 of \<open>EnsureRunning\<close> ("Start new sing-box and become owner"), which the code
  reaches from two places: when adoption is disabled and when it found no process.
\<close>

definition EnsureRunning_start ::
  "string list \<Rightarrow> string list \<Rightarrow> int \<Rightarrow> string \<Rightarrow> world \<Rightarrow> (sb_error + Status) \<times> world" where
  "EnsureRunning_start beforeSet beforeNoIPv4 timeout preferUTUN w =
     (case startSingBox w of
        (Inl err, w1) \<Rightarrow> (Inl err, w1)
      | (Inr pid, w1) \<Rightarrow>
          (case writePID pid w1 of
             (False, w2) \<Rightarrow> (Inl PidfileWrite, snd (stopPID pid w2))
           | (True, w2) \<Rightarrow>
               (case waitForUTUNReady (Some beforeSet) (Some beforeNoIPv4)
                       timeout preferUTUN w2 of
                  (Inl err, w3) \<Rightarrow>
                    (Inl (StartedNoUtun err), removePidFile (snd (stopPID pid w3)))
                | (Inr utun, w3) \<Rightarrow>
                    (Inr \<lparr>Running = True, PID = pid, OwnedByUs = True,
                          AdoptedExternal = False, NewUTUN = utun\<rparr>, w3))))"

definition EnsureRunning :: "Config \<Rightarrow> int \<Rightarrow> world \<Rightarrow> (sb_error + Status) \<times> world" where
  "EnsureRunning cfg timeout w =
     (case listUTUN w of
        None \<Rightarrow> (Inl ListUtunBefore, w)
      | Some (beforeSet, beforeNoIPv4) \<Rightarrow>
          (let preferUTUN = tun_name w in
           case readPID w of
             (pid, ok) \<Rightarrow>
               if ok \<and> processAlive pid w then
                 (case pickReady beforeSet beforeNoIPv4 timeout preferUTUN w of
                    (Inl err, w') \<Rightarrow> (Inl (OwnedNoUtun err), w')
                  | (Inr utun, w') \<Rightarrow>
                      (Inr \<lparr>Running = True, PID = pid, OwnedByUs = True,
                            AdoptedExternal = False, NewUTUN = utun\<rparr>, w'))
               else if boolVal (SingBoxAdoptExternal cfg) True then
                 (case findExternalSingBoxPID w of
                    (epid, eok) \<Rightarrow>
                      if eok \<and> epid > 0 \<and> processAlive epid w then
                        (case pickReady beforeSet beforeNoIPv4 timeout preferUTUN w of
                           (Inl err, w') \<Rightarrow> (Inl (AdoptedNoUtun epid err), w')
                         | (Inr utun, w') \<Rightarrow>
                             (Inr \<lparr>Running = True, PID = epid, OwnedByUs = False,
                                   AdoptedExternal = False, NewUTUN = utun\<rparr>, w'))
                      else EnsureRunning_start beforeSet beforeNoIPv4 timeout preferUTUN w)
               else EnsureRunning_start beforeSet beforeNoIPv4 timeout preferUTUN w))"

text \<open>
  \<open>StopOwned\<close> (restart.go) blocks in a \<open>select\<close> on the context, the deadline timer and
  a ticker. Which of the three is received at each pass is the scheduler's choice; the
  model takes the sequence of these choices as an argument. When the sequence is used
  up, the deadline timer, which always fires in the end, is the one received.
  \<open>os.FindProcess\<close> does not fail on Unix, so its error branch is left out.
\<close>

datatype select_case = CtxDone | DeadlineFired | TickFired

datatype stop_owned_error =
    PidfileNotFound              \<comment> \<open>\<open>"pidfile not found: %s"\<close>\<close>
  | CtxErr                       \<comment> \<open>\<open>ctx.Err()\<close>\<close>
  | DidNotStopInTime int         \<comment> \<open>\<open>"sing-box did not stop in time; killed pid=%d"\<close>\<close>

fun StopOwned_loop :: "int \<Rightarrow> select_case list \<Rightarrow> world \<Rightarrow> stop_owned_error option \<times> world" where
  "StopOwned_loop pid sel w =
     (if \<not> processAlive pid w then (None, removePidFile w)
      else (case sel of
              CtxDone # _ \<Rightarrow> (Some CtxErr, w)
            | TickFired # rest \<Rightarrow> StopOwned_loop pid rest w
            | _ \<Rightarrow>
                (let w1 = Kill pid SIGKILL w;
                     w2 = Sleep (200 * Millisecond) w1;
                     w3 = removePidFile w2
                 in (Some (DidNotStopInTime pid), w3))))"

definition StopOwned :: "select_case list \<Rightarrow> world \<Rightarrow> stop_owned_error option \<times> world" where
  "StopOwned sel w =
     (case readPID w of
        (pid, ok) \<Rightarrow>
          if \<not> ok then (Some PidfileNotFound, w)
          else if \<not> processAlive pid w then (None, removePidFile w)
          else StopOwned_loop pid sel (Kill pid SIGTERM w))"

definition RestartOwned ::
  "select_case list \<Rightarrow> Config \<Rightarrow> world \<Rightarrow> (sb_error + Status) \<times> world" where
  "RestartOwned sel cfg w =
     EnsureRunning cfg (SingBoxStartTimeout cfg) (snd (StopOwned sel w))"

section \<open>The recovery flow and the watchdog loop (package \<open>main\<close>)\<close>

definition Join :: "string list \<Rightarrow> string \<Rightarrow> string" where
  "Join elems sep =
     (case elems of [] \<Rightarrow> [] | e # es \<Rightarrow> foldl (\<lambda>acc x. acc @ sep @ x) e es)"

text \<open>
  \<open>%q\<close> of a text in which no character needs an escape (the lists of addresses of a
  configuration): the text between double quotes.
\<close>

definition quoted :: "string \<Rightarrow> string" where
  "quoted s = [CHR 0x22] @ s @ [CHR 0x22]"

datatype recovery_error =
    StopSingBox sb_error         \<comment> \<open>\<open>"stop sing-box (owned): %w"\<close>\<close>
  | EnsureSingBox sb_error       \<comment> \<open>\<open>"ensure sing-box: %w"\<close>\<close>
  | NotRunningOrNoUtun           \<comment> \<open>\<open>"sing-box not running or utun not detected"\<close>\<close>
  | PfApply control_error        \<comment> \<open>\<open>"pf_apply: %w"\<close>\<close>

text \<open>
  One run of the pf_apply script through \<open>control.RunScript\<close>, with what it does to the
  world. \<open>cmd.Run\<close> starts the script as a new process and waits for it; the command was
  made by \<open>exec.CommandContext\<close>, which sends that process \<open>SIGKILL\<close> (\<open>Process.Kill\<close>) when
  the deadline of the run passes before the process has ended. By the time \<open>cmd.Run\<close>
  returns the process has ended and has been waited for, so it is never in the process
  table that the supervisor probes: the signal is logged and \<open>alive\<close> stays as it is.
  How the run ends (\<open>pf_apply_env\<close>) and what becomes of its process (\<open>pf_apply_child\<close>)
  are two fields of the world; the theorems hold for every combination of them.
\<close>

definition run_pf_apply ::
  "Config \<Rightarrow> string list \<Rightarrow> world \<Rightarrow> (control_Result option \<times> control_error option) \<times> world" where
  "run_pf_apply cfg args w =
     (let w1 = w\<lparr>pf_apply_calls := pf_apply_calls w @ [args]\<rparr>;
          w2 = (case pf_apply_child w (now w) of
                  None \<Rightarrow> w1
                | Some (pid, killed) \<Rightarrow>
                    (let w' = w1\<lparr>started_pids := started_pids w1 @ [int pid]\<rparr>
                     in if killed then w'\<lparr>signals := signals w' @ [(int pid, SIGKILL)]\<rparr>
                        else w'))
      in (RunScript (VPNRouterPFApplyPath cfg) (CommandTimeout cfg) (pf_apply_env w (now w)),
          w2))"

definition doRecovery ::
  "Config \<Rightarrow> string \<Rightarrow> string \<Rightarrow> world \<Rightarrow> recovery_error option \<times> world" where
  "doRecovery cfg effectiveWAN effectiveLAN w =
     (let sb0 = Inspect w in
      case (if OwnedByUs sb0 then StopIfOwned w else (None, w)) of
        (Some err, w1) \<Rightarrow> (Some (StopSingBox err), w1)
      | (None, w1) \<Rightarrow>
          (case EnsureRunning cfg (SingBoxStartTimeout cfg) w1 of
             (Inl err, w2) \<Rightarrow> (Some (EnsureSingBox err), w2)
           | (Inr sb, w2) \<Rightarrow>
               if \<not> Running sb \<or> NewUTUN sb = [] then (Some NotRunningOrNoUtun, w2)
               else
                 (let args = [''utun='' @ NewUTUN sb,
                              ''wan='' @ TrimSpace effectiveWAN,
                              ''lan='' @ TrimSpace effectiveLAN,
                              ''vpn_server_ips='' @ quoted (Join (VPNServerIPs cfg) '',''),
                              ''wan_dns='' @ quoted (Join (WANDNSIPs cfg) '',''),
                              ''allow_ntp='' @ (if AllowWANNTP cfg then ''true'' else ''false'')]
                  in case run_pf_apply cfg args w2 of
                       ((_, Some err), w3) \<Rightarrow> (Some (PfApply err), w3)
                     | ((_, None), w3) \<Rightarrow> (None, w3))))"

text \<open>
  The state of the loop of \<open>cmdRun\<close>: its two counters and the world. \<open>events\<close> keeps,
  in order, what the loop did: each probe with its \<open>OK\<close>, and the occasions of the log
  lines \<open>"recovery budget exhausted ..."\<close> and \<open>"attempting recovery #%d..."\<close>.
\<close>

datatype event =
    HealthProbe bool
  | BudgetExhausted int
  | AttemptingRecovery int
  | HealthAfterRecover bool

record watchdog =
  consecutiveFails :: int
  recoveries :: int
  os :: world
  events :: "event list"

text \<open>
  What one pass of the loop meets: the answer to its probe, the answer to the probe
  after a recovery (asked for only when a recovery runs), and the time until the ticker
  delivers the next tick.
\<close>

record tick_env =
  probe :: http_outcome
  reprobe :: http_outcome
  ticker_wait :: int

text \<open>
  One pass of the \<open>for\<close> loop of \<open>cmdRun\<close>. \<open>status.Collect\<close> and the debug dumps only
  read; they are left out. The counters are Go \<open>int\<close>s, here unbounded: the failure
  counter grows by one per pass and the recovery counter stays below the budget.
\<close>

definition cmdRun_pass ::
  "Config \<Rightarrow> string \<Rightarrow> string \<Rightarrow> string \<Rightarrow> tick_env \<Rightarrow> watchdog \<Rightarrow> watchdog" where
  "cmdRun_pass cfg healthURL effectiveWAN effectiveLAN env st0 =
     (let h = CheckExpected healthURL (VPNServerIPs cfg) (probe env);
          st = st0\<lparr>events := events st0 @ [HealthProbe (OK h)]\<rparr>;
          st = (if OK h then st\<lparr>consecutiveFails := 0\<rparr>
                else st\<lparr>consecutiveFails := consecutiveFails st + 1\<rparr>);
          st =
            (if consecutiveFails st \<ge> FailureThreshold cfg then
               (if recoveries st \<ge> MaxRecoveries cfg then
                  st\<lparr>events := events st @ [BudgetExhausted (recoveries st)]\<rparr>
                else
                  (let st = st\<lparr>recoveries := recoveries st + 1\<rparr>;
                       st = st\<lparr>events := events st @ [AttemptingRecovery (recoveries st)]\<rparr>;
                       st = st\<lparr>os := snd (doRecovery cfg effectiveWAN effectiveLAN (os st))\<rparr>;
                       st = st\<lparr>os := Sleep (RecoverCooldown cfg) (os st)\<rparr>;
                       h2 = CheckExpected healthURL (VPNServerIPs cfg) (reprobe env);
                       st = st\<lparr>events := events st @ [HealthAfterRecover (OK h2)]\<rparr>
                   in if OK h2 then st\<lparr>consecutiveFails := 0\<rparr> else st))
             else st)
      in st\<lparr>os := Sleep (ticker_wait env) (os st)\<rparr>)"

text \<open>
  The loop never ends by itself; \<open>cmdRun_loop\<close> gives the state after as many passes
  as the list has environments, from the state \<open>cmdRun_init\<close> in which the loop starts.
\<close>

fun cmdRun_loop ::
  "Config \<Rightarrow> string \<Rightarrow> string \<Rightarrow> string \<Rightarrow> tick_env list \<Rightarrow> watchdog \<Rightarrow> watchdog" where
  "cmdRun_loop cfg healthURL effectiveWAN effectiveLAN [] st = st"
| "cmdRun_loop cfg healthURL effectiveWAN effectiveLAN (env # envs) st =
     cmdRun_loop cfg healthURL effectiveWAN effectiveLAN envs
       (cmdRun_pass cfg healthURL effectiveWAN effectiveLAN env st)"

definition cmdRun_init :: "world \<Rightarrow> watchdog" where
  "cmdRun_init w = \<lparr>consecutiveFails = 0, recoveries = 0, os = w, events = []\<rparr>"

section \<open>Concrete inputs\<close>

text \<open>The configurations, answers and worlds at which the theorems below are evaluated.\<close>

definition ex_url :: string where
  "ex_url = ''https://api.ipify.org?format=text''"

definition env_ok :: cmd_env where
  "env_ok = \<lparr>run_err = RunNil, captured_stdout = ''ok'' @ [CHR 0x0A], captured_stderr = [],
             deadline_exceeded = False\<rparr>"

definition env_exit3 :: cmd_env where
  "env_exit3 = \<lparr>run_err = ExitError (Exited 3), captured_stdout = [],
                captured_stderr = ''syntax error'' @ [CHR 0x0A], deadline_exceeded = False\<rparr>"

definition env_killed :: cmd_env where
  "env_killed = \<lparr>run_err = ExitError Signaled, captured_stdout = ''loading'' @ [CHR 0x0A],
                 captured_stderr = [], deadline_exceeded = True\<rparr>"

definition cfg_file :: Config where
  "cfg_file = \<lparr>HealthCheckURL = [], CheckInterval = 0, CommandTimeout = 0,
               SingBoxAdoptExternal = None, SingBoxPath = [], SingBoxStartTimeout = 0,
               SingBoxStopTimeout = 0, FailureThreshold = 0, RecoverCooldown = 0,
               MaxRecoveries = 0, HealthTimeout = 0,
               VPNRouterPFApplyPath = ''/usr/local/sbin/vpn_router_pf_apply.sh'',
               VPNServerIPs = [''203.0.113.9''], WANDNSIPs = [], AllowWANNTP = False\<rparr>"

definition quiet_world :: world where
  "quiet_world =
     \<lparr>now = 0, interfaces = (\<lambda>t. Some []), tun_name = [], map_order = (\<lambda>keys. keys),
      pidfile = NoFile, pidfile_writable = True, pidfile_removable = True, alive = {},
      exits_on_term = {}, exits_on_kill = {}, pgrep_pids = (\<lambda>t. Some []),
      spawn = (\<lambda>t. None), started_pids = [], signals = [],
      pf_apply_env = (\<lambda>t. env_ok), pf_apply_child = (\<lambda>t. Some (5150, False)),
      pf_apply_calls = []\<rparr>"

definition utun_v4 :: "string \<Rightarrow> Interface" where
  "utun_v4 name = \<lparr>Name = name, Addrs = Some [IPNet6, IPNet4]\<rparr>"

definition utun_no_v4 :: "string \<Rightarrow> Interface" where
  "utun_no_v4 name = \<lparr>Name = name, Addrs = Some [IPNet6]\<rparr>"

definition external_world :: world where
  "external_world =
     quiet_world\<lparr>interfaces := (\<lambda>t. Some [utun_no_v4 ''utun0'', utun_v4 ''utun4'']),
                 alive := {777}, exits_on_term := {777}, exits_on_kill := {777},
                 pgrep_pids := (\<lambda>t. Some [777])\<rparr>"

text \<open>
  The world \<open>external_world\<close> with a pf_apply script (process 5150) that has not ended
  when the deadline of its run passes.
\<close>

definition overrun_world :: world where
  "overrun_world =
     external_world\<lparr>pf_apply_env := (\<lambda>t. env_killed),
                    pf_apply_child := (\<lambda>t. Some (5150, True))\<rparr>"

text \<open>Observers of the log of the loop: the recovery attempts and the probes of a pass.\<close>

fun isAttempt :: "event \<Rightarrow> bool" where
  "isAttempt (AttemptingRecovery n) = True"
| "isAttempt e = False"

fun isProbe :: "event \<Rightarrow> bool" where
  "isProbe (HealthProbe ok) = True"
| "isProbe e = False"

definition attempts :: "event list \<Rightarrow> nat" where
  "attempts evs = length (filter isAttempt evs)"

definition probes :: "event list \<Rightarrow> nat" where
  "probes evs = length (filter isProbe evs)"

text \<open>The failure counter of a pass right after its probe, before any recovery.\<close>

definition failsAfterProbe :: "Config \<Rightarrow> string \<Rightarrow> tick_env \<Rightarrow> watchdog \<Rightarrow> int" where
  "failsAfterProbe cfg healthURL env st =
     (if OK (CheckExpected healthURL (VPNServerIPs cfg) (probe env)) then 0
      else consecutiveFails st + 1)"


text \<open>A pass in which the probe and the probe after a recovery both fail to connect.\<close>

definition env_down :: tick_env where
  "env_down = \<lparr>probe = DoFails ''context deadline exceeded'',
               reprobe = DoFails ''context deadline exceeded'',
               ticker_wait = 10 * Second\<rparr>"

text \<open>A configuration file that sets a negative recovery budget.\<close>

definition cfg_negative_budget :: Config where
  "cfg_negative_budget = cfg_file\<lparr>MaxRecoveries := - 1\<rparr>"

text \<open>The configuration that loading gives for a file that sets no option.\<close>

definition cfg_defaults :: Config where
  "cfg_defaults = applyDefaults cfg_file"

text \<open>A state of the loop in which the budget of \<open>cfg_defaults\<close> is used up.\<close>

definition st_exhausted :: watchdog where
  "st_exhausted = \<lparr>consecutiveFails = 7, recoveries = 5, os = quiet_world, events = []\<rparr>"

text \<open>
  Relations between a world and a later one, for stating what an operation may change.
  \<open>clock_only w w'\<close>: \<open>w'\<close> is \<open>w\<close> at a later moment. \<open>owned w\<close>: the pid that the
  ownership record of \<open>w\<close> gives, if it gives one. \<open>signaled w w'\<close>: the processes
  (for a signal to a group, its leader) to which a signal was sent between \<open>w\<close> and a
  later world \<open>w'\<close>. \<open>started_since w w'\<close>: the processes that were started between
  \<open>w\<close> and \<open>w'\<close>.
\<close>

definition clock_only :: "world \<Rightarrow> world \<Rightarrow> bool" where
  "clock_only w w' = (now w \<le> now w' \<and> w' = w\<lparr>now := now w'\<rparr>)"

definition owned :: "world \<Rightarrow> int set" where
  "owned w = (if snd (readPID w) then {fst (readPID w)} else {})"

definition signaled :: "world \<Rightarrow> world \<Rightarrow> int set" where
  "signaled w w' = (\<lambda>s. \<bar>fst s\<bar>) ` set (drop (length (signals w)) (signals w'))"

definition started_since :: "world \<Rightarrow> world \<Rightarrow> int set" where
  "started_since w w' = set (drop (length (started_pids w)) (started_pids w'))"

text \<open>
  \<open>same_env w w'\<close>: the two worlds agree on everything the code only observes.
  \<open>sends S w w'\<close>: the signals of \<open>w'\<close> are those of \<open>w\<close> followed by signals to
  processes of \<open>S\<close> only.
\<close>

definition same_env :: "world \<Rightarrow> world \<Rightarrow> bool" where
  "same_env w w' =
     (interfaces w' = interfaces w \<and> tun_name w' = tun_name w \<and> map_order w' = map_order w
      \<and> pidfile_writable w' = pidfile_writable w \<and> pidfile_removable w' = pidfile_removable w
      \<and> exits_on_term w' = exits_on_term w
      \<and> exits_on_kill w' = exits_on_kill w \<and> pgrep_pids w' = pgrep_pids w
      \<and> spawn w' = spawn w \<and> pf_apply_env w' = pf_apply_env w
      \<and> pf_apply_child w' = pf_apply_child w)"

definition sends :: "int set \<Rightarrow> world \<Rightarrow> world \<Rightarrow> bool" where
  "sends S w w' =
     (\<exists>sigs. signals w' = signals w @ sigs \<and> list_all (\<lambda>s. \<bar>fst s\<bar> \<in> S) sigs)"

text \<open>
  A world in which the ownership record names a live process (pid 4242) that ends
  neither on \<open>SIGTERM\<close> nor on \<open>SIGKILL\<close> while \<open>stopPID\<close> waits.
\<close>

definition stubborn_world :: world where
  "stubborn_world = quiet_world\<lparr>pidfile := PidText 4242, alive := {4242}\<rparr>"

text \<open>The same with a process that ends on \<open>SIGTERM\<close>.\<close>

definition owned_world :: world where
  "owned_world = quiet_world\<lparr>pidfile := PidText 4242, alive := {4242},
                              exits_on_term := {4242}, exits_on_kill := {4242}\<rparr>"

text \<open>
  A world in which the owned process runs, the sing-box configuration pins the
  interface name \<open>utun66\<close>, and another tunnel, \<open>utun0\<close>, has an IPv4 address.
\<close>

definition pinned_world :: world where
  "pinned_world =
     owned_world\<lparr>tun_name := ''utun66'', interfaces := (\<lambda>t. Some [utun_v4 ''utun0''])\<rparr>"

text \<open>
  A world with two tunnels of other subsystems, both with an IPv4 address, and the
  snapshot that \<open>listUTUN\<close> takes of it.
\<close>

definition busy_world :: world where
  "busy_world =
     quiet_world\<lparr>interfaces := (\<lambda>t. Some [utun_v4 ''utun0'', utun_v4 ''utun1''])\<rparr>"

text \<open>
  The world right after \<open>startSingBox\<close> has started process \<open>n\<close>, and the world after
  \<open>writePID\<close> has recorded it as well.
\<close>

definition started :: "nat \<Rightarrow> world \<Rightarrow> world" where
  "started n w = w\<lparr>alive := insert (int n) (alive w),
                   started_pids := started_pids w @ [int n]\<rparr>"

definition recorded :: "nat \<Rightarrow> world \<Rightarrow> world" where
  "recorded n w = (started n w)\<lparr>pidfile := PidText (int n)\<rparr>"

text \<open>The process that \<open>startSingBox\<close> starts when called in \<open>w\<close>, if it starts one.\<close>

definition starting :: "world \<Rightarrow> int set" where
  "starting w = (case spawn w (now w) of None \<Rightarrow> {} | Some n \<Rightarrow> {int n})"

text \<open>
  A world in which sing-box can be started (as process 4242) and the pid file cannot be
  written; the process ends on \<open>SIGTERM\<close>.
\<close>

definition readonly_world :: world where
  "readonly_world =
     quiet_world\<lparr>spawn := (\<lambda>t. Some 4242), pidfile_writable := False,
                 exits_on_term := {4242}, exits_on_kill := {4242}\<rparr>"

text \<open>
  A world in which sing-box can be started (as process 4242), never brings up an
  interface, and ends neither on \<open>SIGTERM\<close> nor on \<open>SIGKILL\<close> while \<open>stopPID\<close> waits.
\<close>

definition hung_world :: world where
  "hung_world = quiet_world\<lparr>spawn := (\<lambda>t. Some 4242)\<rparr>"

text \<open>The same with a process that ends on \<open>SIGKILL\<close>.\<close>

definition failing_world :: world where
  "failing_world = quiet_world\<lparr>spawn := (\<lambda>t. Some 4242), exits_on_kill := {4242}\<rparr>"

text \<open>The same again, with a pid file that can be written and cannot be removed.\<close>

definition locked_world :: world where
  "locked_world = failing_world\<lparr>pidfile_removable := False\<rparr>"

text \<open>
  A world in which the started sing-box (process 4242) brings up the pinned interface
  \<open>utun66\<close> half a second after the start, while \<open>utun0\<close> has had IPv4 all along.
\<close>

definition starting_world :: world where
  "starting_world =
     quiet_world\<lparr>spawn := (\<lambda>t. Some 4242), tun_name := ''utun66'',
                 exits_on_term := {4242}, exits_on_kill := {4242},
                 interfaces := (\<lambda>t. if t < 500 * Millisecond then Some [utun_v4 ''utun0'']
                                     else Some [utun_v4 ''utun0'', utun_v4 ''utun66''])\<rparr>"

text \<open>
  \<open>killing w\<close>: the process of the pf_apply script that a run started in \<open>w\<close> has killed
  at its deadline, if it comes to that.
\<close>

definition killing :: "world \<Rightarrow> int set" where
  "killing w = (case pf_apply_child w (now w) of
                  None \<Rightarrow> {}
                | Some (pid, killed) \<Rightarrow> if killed then {int pid} else {})"

text \<open>
  \<open>supervised w w'\<close>: from \<open>w\<close> to \<open>w'\<close>, signals went only to the process that \<open>w\<close>
  records as owned and to processes started in between, the log of the processes
  started has only grown, what the code only observes is unchanged, and the record of
  \<open>w'\<close> names no other process than these.
\<close>

definition supervised :: "world \<Rightarrow> world \<Rightarrow> bool" where
  "supervised w w' =
     (sends (owned w \<union> started_since w w') w w'
      \<and> take (length (started_pids w)) (started_pids w') = started_pids w
      \<and> same_env w w'
      \<and> owned w' \<subseteq> owned w \<union> started_since w w')"

section \<open>Properties of \<open>TrimSpace\<close>\<close>

text \<open>
  \<open>TrimSpace\<close> leaves a text that neither starts nor ends with a white-space rune, and
  trimming such a text again changes nothing.
\<close>

lemma unicodeSpaces_nonempty: "p \<in> set unicodeSpaces \<Longrightarrow> p \<noteq> []"
  by (auto simp: unicodeSpaces_def)

lemma HasPrefix_length: "HasPrefix s p \<Longrightarrow> length p \<le> length s"
proof -
  assume "HasPrefix s p"
  then have "length (take (length p) s) = length p" by (simp only: HasPrefix_def)
  then show ?thesis by simp
qed

lemma filter_hd: "filter P xs = p # ps \<Longrightarrow> P p \<and> p \<in> set xs"
proof -
  assume "filter P xs = p # ps"
  then have "p \<in> set (filter P xs)" by simp
  then show ?thesis by simp
qed

lemma spaceWidth_le: "spaceWidth s \<le> length s"
proof (cases s)
  case Nil
  then show ?thesis by (simp add: spaceWidth_def)
next
  case (Cons c cs)
  show ?thesis
  proof (cases "filter (HasPrefix s) unicodeSpaces")
    case Nil
    with Cons show ?thesis by (simp add: spaceWidth_def)
  next
    case (Cons p ps)
    then have "HasPrefix s p \<and> p \<in> set unicodeSpaces" by (rule filter_hd)
    then have "HasPrefix s p" by (rule conjunct1)
    then have "length p \<le> length s" by (rule HasPrefix_length)
    with Cons \<open>s = c # cs\<close> show ?thesis by (simp add: spaceWidth_def)
  qed
qed

lemma spaceWidth_zero_iff:
  "spaceWidth s = 0 \<longleftrightarrow>
     (s = [] \<or> (\<not> asciiSpace (hd s) \<and> (\<forall>p \<in> set unicodeSpaces. \<not> HasPrefix s p)))"
proof (cases s)
  case Nil
  then show ?thesis by (simp add: spaceWidth_def)
next
  case (Cons c cs)
  show ?thesis
  proof (cases "filter (HasPrefix s) unicodeSpaces")
    case Nil
    then have "\<forall>p \<in> set unicodeSpaces. \<not> HasPrefix s p" by (simp add: filter_empty_conv)
    with Nil Cons show ?thesis by (simp add: spaceWidth_def)
  next
    case (Cons p ps)
    then have p: "HasPrefix s p \<and> p \<in> set unicodeSpaces" by (rule filter_hd)
    then have "length p \<noteq> 0" using unicodeSpaces_nonempty by auto
    with p Cons \<open>s = c # cs\<close> show ?thesis by (auto simp: spaceWidth_def)
  qed
qed

lemma spaceWidthEnd_le: "spaceWidthEnd s \<le> length s"
proof (cases "rev s")
  case Nil
  then show ?thesis by (simp add: spaceWidthEnd_def)
next
  case (Cons c cs)
  then have "length (rev s) = length (c # cs)" by (simp only:)
  then have len: "length s = Suc (length cs)" by simp
  show ?thesis
  proof (cases "filter (\<lambda>p. HasPrefix (rev s) (rev p)) unicodeSpaces")
    case Nil
    with Cons len show ?thesis by (simp add: spaceWidthEnd_def)
  next
    case (Cons p ps)
    then have "HasPrefix (rev s) (rev p) \<and> p \<in> set unicodeSpaces" by (rule filter_hd)
    then have "HasPrefix (rev s) (rev p)" by (rule conjunct1)
    then have "length (rev p) \<le> length (rev s)" by (rule HasPrefix_length)
    then have "length p \<le> length s" by simp
    with Cons \<open>rev s = c # cs\<close> len show ?thesis by (simp add: spaceWidthEnd_def)
  qed
qed

lemma spaceWidthEnd_zero_iff:
  "spaceWidthEnd s = 0 \<longleftrightarrow>
     (s = [] \<or> (\<not> asciiSpace (last s) \<and>
                (\<forall>p \<in> set unicodeSpaces. \<not> HasPrefix (rev s) (rev p))))"
proof (cases "rev s")
  case Nil
  then show ?thesis by (simp add: spaceWidthEnd_def)
next
  case (Cons c cs)
  then have "rev (rev s) = rev (c # cs)" by (simp only:)
  then have "s = rev cs @ [c]" by simp
  then have ne: "s \<noteq> []" and l: "last s = c" by simp_all
  show ?thesis
  proof (cases "filter (\<lambda>p. HasPrefix (rev s) (rev p)) unicodeSpaces")
    case Nil
    then have "\<forall>p \<in> set unicodeSpaces. \<not> HasPrefix (rev s) (rev p)"
      by (simp add: filter_empty_conv)
    with Nil Cons ne l show ?thesis by (simp add: spaceWidthEnd_def)
  next
    case (Cons p ps)
    then have p: "HasPrefix (rev s) (rev p) \<and> p \<in> set unicodeSpaces" by (rule filter_hd)
    then have "length p \<noteq> 0" using unicodeSpaces_nonempty by auto
    with p Cons \<open>rev s = c # cs\<close> ne l show ?thesis by (auto simp: spaceWidthEnd_def)
  qed
qed


lemma trimLeft_fixed: "spaceWidth s = 0 \<Longrightarrow> trimLeft n s = s"
  by (cases n) simp_all

lemma trimRight_fixed: "spaceWidthEnd s = 0 \<Longrightarrow> trimRight n s = s"
  by (cases n) simp_all

lemma trimLeft_done: "length s \<le> n \<Longrightarrow> spaceWidth (trimLeft n s) = 0"
proof (induction n arbitrary: s)
  case 0
  then show ?case by (simp add: spaceWidth_def)
next
  case (Suc n)
  show ?case
  proof (cases "spaceWidth s = 0")
    case True
    then show ?thesis by simp
  next
    case False
    with Suc.prems have "length (drop (spaceWidth s) s) \<le> n" by simp
    then have "spaceWidth (trimLeft n (drop (spaceWidth s) s)) = 0" by (rule Suc.IH)
    with False show ?thesis by simp
  qed
qed

lemma trimRight_done: "length s \<le> n \<Longrightarrow> spaceWidthEnd (trimRight n s) = 0"
proof (induction n arbitrary: s)
  case 0
  then show ?case by (simp add: spaceWidthEnd_def)
next
  case (Suc n)
  show ?case
  proof (cases "spaceWidthEnd s = 0")
    case True
    then show ?thesis by simp
  next
    case False
    with Suc.prems have "length (take (length s - spaceWidthEnd s) s) \<le> n" by simp
    then have "spaceWidthEnd (trimRight n (take (length s - spaceWidthEnd s) s)) = 0"
      by (rule Suc.IH)
    with False show ?thesis by simp
  qed
qed

lemma spaceWidth_take: "spaceWidth s = 0 \<Longrightarrow> spaceWidth (take k s) = 0"
proof (cases "take k s = []")
  case True
  have "spaceWidth [] = 0" by (simp add: spaceWidth_def)
  with True show ?thesis by (simp only:)
next
  case False
  assume z: "spaceWidth s = 0"
  from False have ne: "s \<noteq> []" and k: "0 < k" by auto
  then have hd: "hd (take k s) = hd s" by (simp add: hd_take)
  have "\<not> HasPrefix (take k s) p" if "p \<in> set unicodeSpaces" for p
  proof
    assume h: "HasPrefix (take k s) p"
    then have "length p \<le> length (take k s)" by (rule HasPrefix_length)
    then have "length p \<le> k" by simp
    with h have "HasPrefix s p" by (simp add: HasPrefix_def min_def)
    with z ne that show False by (simp add: spaceWidth_zero_iff)
  qed
  with z ne hd False show ?thesis by (simp add: spaceWidth_zero_iff)
qed

lemma spaceWidth_trimRight: "spaceWidth s = 0 \<Longrightarrow> spaceWidth (trimRight n s) = 0"
proof (induction n arbitrary: s)
  case 0
  then show ?case by simp
next
  case (Suc n)
  from Suc.prems have "spaceWidth (take (length s - spaceWidthEnd s) s) = 0"
    by (rule spaceWidth_take)
  then have "spaceWidth (trimRight n (take (length s - spaceWidthEnd s) s)) = 0"
    by (rule Suc.IH)
  with Suc.prems show ?case by simp
qed

lemma TrimSpace_trimmed: "spaceWidth (TrimSpace s) = 0" "spaceWidthEnd (TrimSpace s) = 0"
  by (simp_all add: TrimSpace_def Let_def trimLeft_done trimRight_done spaceWidth_trimRight)

lemma TrimSpace_idem: "TrimSpace (TrimSpace s) = TrimSpace s"
proof -
  have "trimLeft n (TrimSpace s) = TrimSpace s" for n
    by (simp add: trimLeft_fixed TrimSpace_trimmed)
  moreover have "trimRight n (TrimSpace s) = TrimSpace s" for n
    by (simp add: trimRight_fixed TrimSpace_trimmed)
  ultimately show ?thesis
    unfolding TrimSpace_def[of "TrimSpace s"] by (simp add: Let_def)
qed

section \<open>What \<open>Check\<close> reports\<close>

lemma Check_OK_iff:
  "OK (Check url net) \<longleftrightarrow>
     (\<exists>raw. net = Response 200 raw \<and> TrimSpace (take 4096 raw) \<noteq> [])"
  by (cases net) (simp_all add: Check_def Let_def)

lemma Check_Body: "Body (Check url (Response code raw)) = TrimSpace (take 4096 raw)"
  by (simp add: Check_def Let_def)

lemma CheckExpected_Body: "Body (CheckExpected url expectedIPs net) = Body (Check url net)"
  by (simp add: CheckExpected_def Let_def)

lemma CheckExpected_OK:
  "OK (CheckExpected url expectedIPs net) \<longleftrightarrow>
     OK (Check url net) \<and>
     (expectedIPs = [] \<or> (\<exists>ip \<in> set expectedIPs. TrimSpace ip = TrimSpace (Body (Check url net))))"
  by (simp add: CheckExpected_def Let_def)


lemma CheckExpected_Err:
  "expectedIPs \<noteq> [] \<Longrightarrow> OK (Check url net) \<Longrightarrow> \<not> OK (CheckExpected url expectedIPs net) \<Longrightarrow>
   Err (CheckExpected url expectedIPs net) =
     UnexpectedEgressIP (TrimSpace (Body (Check url net))) expectedIPs"
  by (simp add: CheckExpected_def Let_def split: if_splits)

lemma CheckExpected_StatusCode:
  "StatusCode (CheckExpected url expectedIPs net) = StatusCode (Check url net)"
  by (simp add: CheckExpected_def Let_def)

lemma Check_OK_StatusCode: "OK (Check url net) \<Longrightarrow> StatusCode (Check url net) = 200"
  by (cases net) (simp_all add: Check_def Let_def split: if_splits)

lemma CheckExpected_OK_iff:
  "expectedIPs \<noteq> [] \<Longrightarrow>
   OK (CheckExpected url expectedIPs net) \<longleftrightarrow>
     (\<exists>raw. net = Response 200 raw \<and> Body (CheckExpected url expectedIPs net) \<noteq> [] \<and>
            (\<exists>ip \<in> set expectedIPs. TrimSpace ip = Body (CheckExpected url expectedIPs net)))"
proof -
  assume ne: "expectedIPs \<noteq> []"
  show ?thesis
  proof (cases net)
    case (Response code raw)
    then show ?thesis
      using ne
      by (simp add: CheckExpected_OK CheckExpected_Body Check_OK_iff Check_Body TrimSpace_idem)
  next
    case (NewRequestFails e)
    then show ?thesis by (simp add: CheckExpected_OK Check_OK_iff)
  next
    case (DoFails e)
    then show ?thesis by (simp add: CheckExpected_OK Check_OK_iff)
  qed
qed

lemmas trim_eval =
  TrimSpace_def spaceWidth_def spaceWidthEnd_def asciiSpace_def unicodeSpaces_def HasPrefix_def

text \<open>
  Claim C6, as amended. For a probe with a non-empty expected set, \<open>OK\<close> holds exactly
  when the answer is a response with status 200 whose trimmed, bounded body is not empty
  and equals one of the expected entries \<^emph>\<open>after that entry is trimmed\<close>
  (\<open>strings.TrimSpace(ip) == body\<close>). When the plain probe succeeds and no entry
  matches, the result keeps status 200, has \<open>OK = false\<close> and carries the text
  "unexpected egress ip ... (expected one of ...)". With the expected set
  \<open>["203.0.113.9"]\<close>, the body \<open>"203.0.113.9"\<close> gives \<open>OK = true\<close> and the body
  \<open>"198.51.100.1"\<close> gives \<open>OK = false\<close> with that text, at status 200.
\<close>

theorem CheckExpected_ok_iff_trimmed_match:
  "(expectedIPs \<noteq> [] \<longrightarrow>
      (OK (CheckExpected url expectedIPs net) \<longleftrightarrow>
         (\<exists>raw. net = Response 200 raw \<and>
                Body (CheckExpected url expectedIPs net) \<noteq> [] \<and>
                (\<exists>ip \<in> set expectedIPs.
                    TrimSpace ip = Body (CheckExpected url expectedIPs net)))))
   \<and> Body (CheckExpected url expectedIPs (Response code raw)) = TrimSpace (take 4096 raw)
   \<and> (expectedIPs \<noteq> [] \<and> OK (Check url net) \<and> \<not> OK (CheckExpected url expectedIPs net) \<longrightarrow>
        StatusCode (CheckExpected url expectedIPs net) = 200 \<and>
        Err (CheckExpected url expectedIPs net) =
          UnexpectedEgressIP (Body (CheckExpected url expectedIPs net)) expectedIPs)
   \<and> OK (CheckExpected url [''203.0.113.9''] (Response 200 ''203.0.113.9''))
   \<and> CheckExpected url [''203.0.113.9''] (Response 200 ''198.51.100.1'') =
        \<lparr>OK = False, URL = url, StatusCode = 200, Body = ''198.51.100.1'',
         Err = UnexpectedEgressIP ''198.51.100.1'' [''203.0.113.9'']\<rparr>"
proof (intro conjI impI)
  assume "expectedIPs \<noteq> []"
  then show "OK (CheckExpected url expectedIPs net) \<longleftrightarrow>
         (\<exists>raw. net = Response 200 raw \<and>
                Body (CheckExpected url expectedIPs net) \<noteq> [] \<and>
                (\<exists>ip \<in> set expectedIPs.
                    TrimSpace ip = Body (CheckExpected url expectedIPs net)))"
    by (rule CheckExpected_OK_iff)
next
  show "Body (CheckExpected url expectedIPs (Response code raw)) = TrimSpace (take 4096 raw)"
    by (simp add: CheckExpected_Body Check_Body)
next
  assume a: "expectedIPs \<noteq> [] \<and> OK (Check url net) \<and> \<not> OK (CheckExpected url expectedIPs net)"
  then show "StatusCode (CheckExpected url expectedIPs net) = 200"
    by (simp add: CheckExpected_StatusCode Check_OK_StatusCode)
  from a obtain raw where "net = Response 200 raw" by (auto simp: Check_OK_iff)
  then have "TrimSpace (Body (Check url net)) = Body (CheckExpected url expectedIPs net)"
    by (simp add: CheckExpected_Body Check_Body TrimSpace_idem)
  with a show "Err (CheckExpected url expectedIPs net) =
          UnexpectedEgressIP (Body (CheckExpected url expectedIPs net)) expectedIPs"
    by (simp add: CheckExpected_Err)
next
  show "OK (CheckExpected url [''203.0.113.9''] (Response 200 ''203.0.113.9''))"
    by (simp add: CheckExpected_def Check_def Let_def trim_eval)
next
  show "CheckExpected url [''203.0.113.9''] (Response 200 ''198.51.100.1'') =
        \<lparr>OK = False, URL = url, StatusCode = 200, Body = ''198.51.100.1'',
         Err = UnexpectedEgressIP ''198.51.100.1'' [''203.0.113.9'']\<rparr>"
    by (simp add: CheckExpected_def Check_def Let_def trim_eval)
qed

text \<open>
  The theorem at the expected set \<open>["203.0.113.9"]\<close> and a body that ends in a newline.
\<close>

theorem CheckExpected_ok_iff_trimmed_match_witness:
  "[''203.0.113.9''] \<noteq> []
   \<and> OK (CheckExpected ex_url [''203.0.113.9''] (Response 200 (''203.0.113.9'' @ [CHR 0x0A])))
   \<and> Body (CheckExpected ex_url [''203.0.113.9''] (Response 200 (''203.0.113.9'' @ [CHR 0x0A])))
       = ''203.0.113.9''"
  using CheckExpected_ok_iff_trimmed_match
          [of "[''203.0.113.9'']" ex_url "Response 200 (''203.0.113.9'' @ [CHR 0x0A])"
              200 "''203.0.113.9'' @ [CHR 0x0A]"]
  by (simp add: CheckExpected_def Check_def Let_def trim_eval)

text \<open>
  Claim C6 as stated asks for an exact match with an entry. An entry written with a
  leading space is matched by the body without it: \<open>OK\<close> holds although the body is no
  element of the expected set.
\<close>

theorem CheckExpected_untrimmed_entry_counterexample:
  "OK (CheckExpected ex_url ['' 203.0.113.9''] (Response 200 ''203.0.113.9''))
   \<and> Body (CheckExpected ex_url ['' 203.0.113.9''] (Response 200 ''203.0.113.9''))
       = ''203.0.113.9''
   \<and> ''203.0.113.9'' \<notin> set ['' 203.0.113.9'']"
  by (simp add: CheckExpected_def Check_def Let_def trim_eval)

section \<open>The command runner\<close>

text \<open>
  Claim C9, as amended. \<open>RunScript\<close> always returns a result (never \<open>nil\<close>) holding the
  exit code and the trimmed output captured so far. When the deadline has expired, the
  error is the timeout error. When it has not and the process exited with a status,
  the result carries that status and the error is the command-failed error with it.
  The exit code is -1 exactly when the error of \<open>cmd.Run\<close> carries no exit status: it
  is no \<open>*exec.ExitError\<close> (the command could not be started), \<^emph>\<open>or it is one for a
  process that a signal terminated\<close>; it is never -1 for a process that exited by
  itself. The error is \<open>nil\<close> exactly when the
  command succeeded within the deadline.
\<close>

theorem RunScript_result_and_exit_code:
  "(deadline_exceeded env \<longrightarrow>
      RunScript path timeout env =
        (Some \<lparr>ExitCode = exitCode (run_err env),
               Stdout = TrimSpace (captured_stdout env),
               Stderr = TrimSpace (captured_stderr env)\<rparr>,
         Some (CommandTimedOut timeout path)))
   \<and> (\<not> deadline_exceeded env \<and> run_err env = ExitError (Exited n) \<longrightarrow>
      RunScript path timeout env =
        (Some \<lparr>ExitCode = int n,
               Stdout = TrimSpace (captured_stdout env),
               Stderr = TrimSpace (captured_stderr env)\<rparr>,
         Some (CommandFailed (int n) path)))
   \<and> (\<exists>res. fst (RunScript path timeout env) = Some res \<and>
             (ExitCode res = - 1 \<longleftrightarrow>
                run_err env = OtherError \<or> run_err env = ExitError Signaled))
   \<and> (snd (RunScript path timeout env) = None \<longleftrightarrow>
        \<not> deadline_exceeded env \<and> run_err env = RunNil)"
proof (intro conjI impI)
  show "\<exists>res. fst (RunScript path timeout env) = Some res \<and>
             (ExitCode res = - 1 \<longleftrightarrow>
                run_err env = OtherError \<or> run_err env = ExitError Signaled)"
  proof (cases "run_err env")
    case (ExitError ee)
    then show ?thesis by (cases ee) (simp_all add: RunScript_def Let_def)
  qed (simp_all add: RunScript_def Let_def)
qed (simp_all add: RunScript_def Let_def)

text \<open>The theorem at a script that exits with status 3 within the deadline.\<close>

theorem RunScript_result_and_exit_code_witness:
  "\<not> deadline_exceeded env_exit3 \<and> run_err env_exit3 = ExitError (Exited 3)
   \<and> RunScript ''/usr/local/sbin/vpn_router_pf_apply.sh'' (20 * Second) env_exit3 =
        (Some \<lparr>ExitCode = 3, Stdout = [], Stderr = ''syntax error''\<rparr>,
         Some (CommandFailed 3 ''/usr/local/sbin/vpn_router_pf_apply.sh''))"
  using RunScript_result_and_exit_code
          [of env_exit3 "''/usr/local/sbin/vpn_router_pf_apply.sh''" "20 * Second" 3]
  by (simp add: env_exit3_def trim_eval)

text \<open>
  Claim C9 as stated reserves -1 for a command that could not be started. A command
  that was started and is killed when the deadline expires ends by a signal:
  \<open>cmd.Run\<close> returns an \<open>*exec.ExitError\<close> whose \<open>ExitCode()\<close> is -1, and the result
  carries -1 beside the timeout error.
\<close>

theorem RunScript_minus_one_on_timeout_counterexample:
  "RunScript ''/usr/local/sbin/vpn_router_pf_apply.sh'' (20 * Second) env_killed =
     (Some \<lparr>ExitCode = - 1, Stdout = ''loading'', Stderr = []\<rparr>,
      Some (CommandTimedOut (20 * Second) ''/usr/local/sbin/vpn_router_pf_apply.sh''))
   \<and> run_err env_killed \<noteq> OtherError"
  by (simp add: RunScript_def env_killed_def trim_eval)

section \<open>The branches of \<open>EnsureRunning\<close>\<close>

lemma findExternalSingBoxPID_alive:
  "findExternalSingBoxPID w = (epid, True) \<Longrightarrow> processAlive epid w \<and> 0 < epid"
proof -
  assume a: "findExternalSingBoxPID w = (epid, True)"
  then obtain pids rest where
    f: "filter (\<lambda>pid. processAlive pid w) pids = epid # rest"
    by (auto simp: findExternalSingBoxPID_def split: option.splits list.splits)
  have "processAlive epid w \<and> epid \<in> set pids" using f by (rule filter_hd)
  then show ?thesis by (auto simp: processAlive_def split: if_splits)
qed

text \<open>The four ways through \<open>EnsureRunning\<close>.\<close>

lemma EnsureRunning_list_fails:
  "listUTUN w = None \<Longrightarrow> EnsureRunning cfg timeout w = (Inl ListUtunBefore, w)"
  by (simp only: EnsureRunning_def option.case)

lemma EnsureRunning_owned:
  assumes "listUTUN w = Some (beforeSet, beforeNoIPv4)"
    and "readPID w = (pid, True)" and "processAlive pid w"
  shows "EnsureRunning cfg timeout w =
     (case pickReady beforeSet beforeNoIPv4 timeout (tun_name w) w of
        (Inl err, w') \<Rightarrow> (Inl (OwnedNoUtun err), w')
      | (Inr utun, w') \<Rightarrow>
          (Inr \<lparr>Running = True, PID = pid, OwnedByUs = True,
                AdoptedExternal = False, NewUTUN = utun\<rparr>, w'))"
proof -
  have c: "(True \<and> processAlive pid w) = True" using assms(3) by simp
  show ?thesis
    by (simp only: EnsureRunning_def Let_def assms(1) assms(2) option.case prod.case c if_True)
qed

lemma EnsureRunning_adopts:
  assumes "boolVal (SingBoxAdoptExternal cfg) True"
    and "listUTUN w = Some (beforeSet, beforeNoIPv4)"
    and "\<not> (snd (readPID w) \<and> processAlive (fst (readPID w)) w)"
    and "findExternalSingBoxPID w = (epid, True)"
  shows "EnsureRunning cfg timeout w =
     (case pickReady beforeSet beforeNoIPv4 timeout (tun_name w) w of
        (Inl err, w') \<Rightarrow> (Inl (AdoptedNoUtun epid err), w')
      | (Inr utun, w') \<Rightarrow>
          (Inr \<lparr>Running = True, PID = epid, OwnedByUs = False,
                AdoptedExternal = False, NewUTUN = utun\<rparr>, w'))"
proof -
  from assms(4) have e: "processAlive epid w \<and> 0 < epid" by (rule findExternalSingBoxPID_alive)
  obtain pid ok where r: "readPID w = (pid, ok)" by (cases "readPID w")
  with assms(3) have c1: "(ok \<and> processAlive pid w) = False" by simp
  from e have c2: "(True \<and> 0 < epid \<and> processAlive epid w) = True" by simp
  from assms(1) have c3: "boolVal (SingBoxAdoptExternal cfg) True = True" by simp
  show ?thesis
    by (simp only: EnsureRunning_def Let_def assms(2) assms(4) r option.case prod.case
          c1 c2 c3 if_True if_False)
qed

lemma EnsureRunning_starts:
  assumes "listUTUN w = Some (beforeSet, beforeNoIPv4)"
    and "\<not> (snd (readPID w) \<and> processAlive (fst (readPID w)) w)"
    and "\<not> (boolVal (SingBoxAdoptExternal cfg) True \<and> snd (findExternalSingBoxPID w))"
  shows "EnsureRunning cfg timeout w =
           EnsureRunning_start beforeSet beforeNoIPv4 timeout (tun_name w) w"
proof -
  obtain pid ok where r: "readPID w = (pid, ok)" by (cases "readPID w")
  with assms(2) have c1: "(ok \<and> processAlive pid w) = False" by simp
  obtain epid eok where f: "findExternalSingBoxPID w = (epid, eok)"
    by (cases "findExternalSingBoxPID w")
  show ?thesis
  proof (cases "boolVal (SingBoxAdoptExternal cfg) True")
    case True
    with assms(3) f have "eok = False" by simp
    then have c2: "(eok \<and> 0 < epid \<and> processAlive epid w) = False" by simp
    from True have c3: "boolVal (SingBoxAdoptExternal cfg) True = True" by simp
    show ?thesis
      by (simp only: EnsureRunning_def Let_def assms(1) r f option.case prod.case
            c1 c2 c3 if_True if_False)
  next
    case False
    then have c3: "boolVal (SingBoxAdoptExternal cfg) True = False" by simp
    show ?thesis
      by (simp only: EnsureRunning_def Let_def assms(1) r option.case prod.case
            c1 c3 if_False)
  qed
qed

lemma EnsureRunning_unset_adopt:
  "SingBoxAdoptExternal cfg = None \<Longrightarrow>
   EnsureRunning cfg timeout w = EnsureRunning (cfg\<lparr>SingBoxAdoptExternal := Some True\<rparr>) timeout w"
proof -
  assume "SingBoxAdoptExternal cfg = None"
  then have b: "boolVal (SingBoxAdoptExternal cfg) True =
                boolVal (SingBoxAdoptExternal (cfg\<lparr>SingBoxAdoptExternal := Some True\<rparr>)) True"
    by (simp add: boolVal_def)
  show ?thesis by (simp only: EnsureRunning_def b)
qed

section \<open>Adoption by default\<close>

text \<open>
  Claim C10. When the configuration leaves \<open>singbox_adopt_external\<close> unset,
  \<open>applyDefaults\<close> sets it to true, \<open>AdoptExternal\<close> and \<open>boolVal\<close> with default
  \<open>true\<close> read the unset value as true, and \<open>EnsureRunning\<close> behaves as it does with
  the value set to true: when no owned process is alive and \<open>findExternalSingBoxPID\<close>
  finds a process, that process is adopted (\<open>OwnedByUs = false\<close>) and nothing is started.
\<close>

theorem adopt_external_default:
  "SingBoxAdoptExternal cfg = None \<longrightarrow>
     SingBoxAdoptExternal (applyDefaults cfg) = Some True
     \<and> AdoptExternal cfg
     \<and> boolVal (SingBoxAdoptExternal cfg) True
     \<and> EnsureRunning cfg timeout w =
         EnsureRunning (cfg\<lparr>SingBoxAdoptExternal := Some True\<rparr>) timeout w
     \<and> (listUTUN w = Some (beforeSet, beforeNoIPv4)
          \<and> \<not> (snd (readPID w) \<and> processAlive (fst (readPID w)) w)
          \<and> findExternalSingBoxPID w = (epid, True) \<longrightarrow>
        EnsureRunning cfg timeout w =
          (case pickReady beforeSet beforeNoIPv4 timeout (tun_name w) w of
             (Inl err, w') \<Rightarrow> (Inl (AdoptedNoUtun epid err), w')
           | (Inr utun, w') \<Rightarrow>
               (Inr \<lparr>Running = True, PID = epid, OwnedByUs = False,
                     AdoptedExternal = False, NewUTUN = utun\<rparr>, w')))"
proof (intro impI conjI)
  assume n: "SingBoxAdoptExternal cfg = None"
  then show "SingBoxAdoptExternal (applyDefaults cfg) = Some True"
    by (simp add: applyDefaults_def)
  from n show "AdoptExternal cfg" by (simp add: AdoptExternal_def)
  from n show b: "boolVal (SingBoxAdoptExternal cfg) True" by (simp add: boolVal_def)
  from n show "EnsureRunning cfg timeout w =
         EnsureRunning (cfg\<lparr>SingBoxAdoptExternal := Some True\<rparr>) timeout w"
    by (rule EnsureRunning_unset_adopt)
  assume "listUTUN w = Some (beforeSet, beforeNoIPv4)
          \<and> \<not> (snd (readPID w) \<and> processAlive (fst (readPID w)) w)
          \<and> findExternalSingBoxPID w = (epid, True)"
  with b show "EnsureRunning cfg timeout w =
          (case pickReady beforeSet beforeNoIPv4 timeout (tun_name w) w of
             (Inl err, w') \<Rightarrow> (Inl (AdoptedNoUtun epid err), w')
           | (Inr utun, w') \<Rightarrow>
               (Inr \<lparr>Running = True, PID = epid, OwnedByUs = False,
                     AdoptedExternal = False, NewUTUN = utun\<rparr>, w'))"
    by (simp add: EnsureRunning_adopts)
qed

text \<open>Unfolding the concrete worlds and the functions that only read the world.\<close>

lemmas world_eval =
  quiet_world_def external_world_def utun_v4_def utun_no_v4_def env_ok_def
  listUTUN_def readPID_def processAlive_def findExternalSingBoxPID_def hasV4_def HasPrefix_def
  pickReady_def pickAnyUTUNWithIPv4_def Let_def

text \<open>
  The theorem at a configuration file that sets no option and a world in which an
  external sing-box (pid 777) runs with its interface \<open>utun4\<close> ready.
\<close>

theorem adopt_external_default_witness:
  "SingBoxAdoptExternal cfg_file = None
   \<and> SingBoxAdoptExternal (applyDefaults cfg_file) = Some True
   \<and> EnsureRunning cfg_file (8 * Second) external_world =
       (Inr \<lparr>Running = True, PID = 777, OwnedByUs = False, AdoptedExternal = False,
             NewUTUN = ''utun4''\<rparr>, external_world)"
proof -
  have unset: "SingBoxAdoptExternal cfg_file = None"
    by (simp add: cfg_file_def)
  have before: "listUTUN external_world = Some ([''utun0'', ''utun4''], [''utun0''])"
    by (simp add: world_eval)
  have not_owned:
    "\<not> (snd (readPID external_world) \<and> processAlive (fst (readPID external_world)) external_world)"
    by (simp add: world_eval)
  have found: "findExternalSingBoxPID external_world = (777, True)"
    by (simp add: world_eval)
  have ready: "pickReady [''utun0'', ''utun4''] [''utun0''] (8 * Second)
                 (tun_name external_world) external_world = (Inr ''utun4'', external_world)"
    by (simp add: world_eval)
  note inst = adopt_external_default
      [of cfg_file "8 * Second" external_world "[''utun0'', ''utun4'']" "[''utun0'']" 777,
       THEN mp, OF unset]
  from inst have "SingBoxAdoptExternal (applyDefaults cfg_file) = Some True" by (rule conjunct1)
  moreover from inst before not_owned found
  have "EnsureRunning cfg_file (8 * Second) external_world =
          (case pickReady [''utun0'', ''utun4''] [''utun0''] (8 * Second)
                  (tun_name external_world) external_world of
             (Inl err, w') \<Rightarrow> (Inl (AdoptedNoUtun 777 err), w')
           | (Inr utun, w') \<Rightarrow>
               (Inr \<lparr>Running = True, PID = 777, OwnedByUs = False,
                     AdoptedExternal = False, NewUTUN = utun\<rparr>, w'))"
    by blast
  ultimately show ?thesis using unset ready by simp
qed

section \<open>One pass of the watchdog loop\<close>

lemma pass_recoveries:
  "recoveries (cmdRun_pass cfg url wan lan env st) =
     (if FailureThreshold cfg \<le> failsAfterProbe cfg url env st
         \<and> recoveries st < MaxRecoveries cfg
      then recoveries st + 1 else recoveries st)"
  by (simp add: cmdRun_pass_def failsAfterProbe_def Let_def)

lemma pass_consecutiveFails:
  "consecutiveFails (cmdRun_pass cfg url wan lan env st) =
     (if FailureThreshold cfg \<le> failsAfterProbe cfg url env st
         \<and> recoveries st < MaxRecoveries cfg
         \<and> OK (CheckExpected url (VPNServerIPs cfg) (reprobe env))
      then 0 else failsAfterProbe cfg url env st)"
  by (simp add: cmdRun_pass_def failsAfterProbe_def Let_def)

lemma pass_events:
  "events (cmdRun_pass cfg url wan lan env st) =
     events st @ [HealthProbe (OK (CheckExpected url (VPNServerIPs cfg) (probe env)))] @
     (if FailureThreshold cfg \<le> failsAfterProbe cfg url env st then
        (if MaxRecoveries cfg \<le> recoveries st then [BudgetExhausted (recoveries st)]
         else [AttemptingRecovery (recoveries st + 1),
               HealthAfterRecover (OK (CheckExpected url (VPNServerIPs cfg) (reprobe env)))])
      else [])"
  by (simp add: cmdRun_pass_def failsAfterProbe_def Let_def)

lemma pass_os:
  "os (cmdRun_pass cfg url wan lan env st) =
     Sleep (ticker_wait env)
       (if FailureThreshold cfg \<le> failsAfterProbe cfg url env st
           \<and> recoveries st < MaxRecoveries cfg
        then Sleep (RecoverCooldown cfg) (snd (doRecovery cfg wan lan (os st)))
        else os st)"
  by (simp add: cmdRun_pass_def failsAfterProbe_def Let_def)

lemma attempts_append: "attempts (xs @ ys) = attempts xs + attempts ys"
  by (simp add: attempts_def)

lemma probes_append: "probes (xs @ ys) = probes xs + probes ys"
  by (simp add: probes_def)

lemma pass_attempts:
  "attempts (events (cmdRun_pass cfg url wan lan env st)) =
     attempts (events st) +
     (if FailureThreshold cfg \<le> failsAfterProbe cfg url env st
         \<and> recoveries st < MaxRecoveries cfg then 1 else 0)"
  by (simp add: pass_events attempts_append) (simp add: attempts_def)

lemma pass_probes:
  "probes (events (cmdRun_pass cfg url wan lan env st)) = probes (events st) + 1"
  by (simp add: pass_events probes_append) (simp add: probes_def)

lemma Sleep_fields:
  "signals (Sleep d w) = signals w" "pf_apply_calls (Sleep d w) = pf_apply_calls w"
  "pidfile (Sleep d w) = pidfile w" "alive (Sleep d w) = alive w"
  "started_pids (Sleep d w) = started_pids w"
  "pidfile_removable (Sleep d w) = pidfile_removable w"
  by (simp_all add: Sleep_def)

section \<open>The recovery budget\<close>

lemma loop_recoveries_bounded:
  "recoveries st \<le> MaxRecoveries cfg \<Longrightarrow>
   recoveries (cmdRun_loop cfg url wan lan envs st) \<le> MaxRecoveries cfg"
proof (induction envs arbitrary: st)
  case Nil
  then show ?case by simp
next
  case (Cons env envs)
  from Cons.prems have "recoveries (cmdRun_pass cfg url wan lan env st) \<le> MaxRecoveries cfg"
    by (simp add: pass_recoveries)
  then show ?case by (simp add: Cons.IH)
qed

lemma loop_exhausted:
  "MaxRecoveries cfg \<le> recoveries st \<Longrightarrow>
   recoveries (cmdRun_loop cfg url wan lan envs st) = recoveries st
   \<and> signals (os (cmdRun_loop cfg url wan lan envs st)) = signals (os st)
   \<and> pf_apply_calls (os (cmdRun_loop cfg url wan lan envs st)) = pf_apply_calls (os st)
   \<and> pidfile (os (cmdRun_loop cfg url wan lan envs st)) = pidfile (os st)
   \<and> alive (os (cmdRun_loop cfg url wan lan envs st)) = alive (os st)
   \<and> attempts (events (cmdRun_loop cfg url wan lan envs st)) = attempts (events st)
   \<and> probes (events (cmdRun_loop cfg url wan lan envs st)) = probes (events st) + length envs"
proof (induction envs arbitrary: st)
  case Nil
  then show ?case by simp
next
  case (Cons env envs)
  let ?st = "cmdRun_pass cfg url wan lan env st"
  from Cons.prems have r: "recoveries ?st = recoveries st" by (simp add: pass_recoveries)
  from Cons.prems have o: "os ?st = Sleep (ticker_wait env) (os st)" by (simp add: pass_os)
  from Cons.prems have a: "attempts (events ?st) = attempts (events st)"
    by (simp add: pass_attempts)
  have p: "probes (events ?st) = probes (events st) + 1" by (rule pass_probes)
  from Cons.prems r have "MaxRecoveries cfg \<le> recoveries ?st" by simp
  from Cons.IH[OF this] show ?case by (simp add: r o a p Sleep_fields)
qed

text \<open>
  Claim C2, as amended. Provided the configured budget is not negative, the recovery
  counter never exceeds it in any state of the loop; from any state whose counter is
  within the budget it stays within it. Once the counter has reached the budget, it no
  longer changes, no recovery is attempted, and the world keeps its signals, its runs
  of the pf_apply script, its pid file and its processes, whatever the later probes
  answer. Every pass probes once, exhausted or not.
\<close>

theorem recoveries_within_budget:
  "(0 \<le> MaxRecoveries cfg \<longrightarrow>
      recoveries (cmdRun_loop cfg url wan lan envs (cmdRun_init w)) \<le> MaxRecoveries cfg)
   \<and> (recoveries st \<le> MaxRecoveries cfg \<longrightarrow>
      recoveries (cmdRun_loop cfg url wan lan envs st) \<le> MaxRecoveries cfg)
   \<and> (MaxRecoveries cfg \<le> recoveries st \<longrightarrow>
      recoveries (cmdRun_loop cfg url wan lan envs st) = recoveries st
      \<and> attempts (events (cmdRun_loop cfg url wan lan envs st)) = attempts (events st)
      \<and> signals (os (cmdRun_loop cfg url wan lan envs st)) = signals (os st)
      \<and> pf_apply_calls (os (cmdRun_loop cfg url wan lan envs st)) = pf_apply_calls (os st)
      \<and> pidfile (os (cmdRun_loop cfg url wan lan envs st)) = pidfile (os st)
      \<and> alive (os (cmdRun_loop cfg url wan lan envs st)) = alive (os st))
   \<and> probes (events (cmdRun_loop cfg url wan lan envs st)) = probes (events st) + length envs"
proof (intro conjI impI)
  assume "0 \<le> MaxRecoveries cfg"
  then have "recoveries (cmdRun_init w) \<le> MaxRecoveries cfg" by (simp add: cmdRun_init_def)
  then show "recoveries (cmdRun_loop cfg url wan lan envs (cmdRun_init w)) \<le> MaxRecoveries cfg"
    by (rule loop_recoveries_bounded)
next
  assume "recoveries st \<le> MaxRecoveries cfg"
  then show "recoveries (cmdRun_loop cfg url wan lan envs st) \<le> MaxRecoveries cfg"
    by (rule loop_recoveries_bounded)
next
  show "probes (events (cmdRun_loop cfg url wan lan envs st)) = probes (events st) + length envs"
    by (induction envs arbitrary: st) (simp_all add: pass_probes)
qed (simp_all add: loop_exhausted)

text \<open>Evaluating a run of the loop in which every probe fails.\<close>

lemma probe_down: "OK (CheckExpected url ips (DoFails e)) = False"
  by (simp add: CheckExpected_def Check_def)

lemma cfg_defaults_watchdog:
  "FailureThreshold cfg_defaults = 3" "MaxRecoveries cfg_defaults = 5"
  by (simp_all add: cfg_defaults_def cfg_file_def applyDefaults_def)

lemma cfg_negative_budget_watchdog:
  "FailureThreshold (applyDefaults cfg_negative_budget) = 3"
  "MaxRecoveries (applyDefaults cfg_negative_budget) = - 1"
  by (simp_all add: cfg_negative_budget_def cfg_file_def applyDefaults_def)

lemma init_counters:
  "consecutiveFails (cmdRun_init w) = 0" "recoveries (cmdRun_init w) = 0"
  "events (cmdRun_init w) = []"
  by (simp_all add: cmdRun_init_def)

lemmas run_eval =
  pass_recoveries pass_consecutiveFails pass_events failsAfterProbe_def probe_down
  init_counters env_down_def attempts_def probes_def

text \<open>
  The theorem at the default configuration (threshold 3, budget 5): three failing
  passes from the start use one recovery, and from a state with five recoveries used
  two more failing passes change neither the counter nor the world.
\<close>

theorem recoveries_within_budget_witness:
  "0 \<le> MaxRecoveries cfg_defaults
   \<and> recoveries (cmdRun_loop cfg_defaults ex_url [] [] [env_down, env_down, env_down]
                  (cmdRun_init quiet_world)) \<le> MaxRecoveries cfg_defaults
   \<and> recoveries (cmdRun_loop cfg_defaults ex_url [] [] [env_down, env_down, env_down]
                  (cmdRun_init quiet_world)) = 1
   \<and> MaxRecoveries cfg_defaults \<le> recoveries st_exhausted
   \<and> recoveries (cmdRun_loop cfg_defaults ex_url [] [] [env_down, env_down] st_exhausted) = 5
   \<and> signals (os (cmdRun_loop cfg_defaults ex_url [] [] [env_down, env_down] st_exhausted)) = []
   \<and> pf_apply_calls (os (cmdRun_loop cfg_defaults ex_url [] [] [env_down, env_down] st_exhausted))
       = []
   \<and> probes (events (cmdRun_loop cfg_defaults ex_url [] [] [env_down, env_down] st_exhausted))
       = 2"
proof -
  have budget: "0 \<le> MaxRecoveries cfg_defaults" by (simp add: cfg_defaults_watchdog)
  have used: "MaxRecoveries cfg_defaults \<le> recoveries st_exhausted"
    by (simp add: cfg_defaults_watchdog st_exhausted_def)
  note a = recoveries_within_budget
             [of cfg_defaults ex_url "[]" "[]" "[env_down, env_down, env_down]" quiet_world
                 st_exhausted]
  note b = recoveries_within_budget
             [of cfg_defaults ex_url "[]" "[]" "[env_down, env_down]" quiet_world st_exhausted]
  from a budget
  have 1: "recoveries (cmdRun_loop cfg_defaults ex_url [] [] [env_down, env_down, env_down]
                  (cmdRun_init quiet_world)) \<le> MaxRecoveries cfg_defaults"
    by blast
  have 2: "recoveries (cmdRun_loop cfg_defaults ex_url [] [] [env_down, env_down, env_down]
                  (cmdRun_init quiet_world)) = 1"
    by (simp add: run_eval cfg_defaults_watchdog)
  from b used
  have 3: "recoveries (cmdRun_loop cfg_defaults ex_url [] [] [env_down, env_down] st_exhausted)
             = recoveries st_exhausted
           \<and> signals (os (cmdRun_loop cfg_defaults ex_url [] [] [env_down, env_down] st_exhausted))
             = signals (os st_exhausted)
           \<and> pf_apply_calls
               (os (cmdRun_loop cfg_defaults ex_url [] [] [env_down, env_down] st_exhausted))
             = pf_apply_calls (os st_exhausted)"
    by blast
  from b
  have 4: "probes (events (cmdRun_loop cfg_defaults ex_url [] [] [env_down, env_down] st_exhausted))
             = probes (events st_exhausted) + length [env_down, env_down]"
    by blast
  have 5: "recoveries st_exhausted = 5" "signals (os st_exhausted) = []"
    "pf_apply_calls (os st_exhausted) = []" "probes (events st_exhausted) = 0"
    by (simp_all add: st_exhausted_def quiet_world_def probes_def)
  from budget used 1 2 3 4 5 show ?thesis by simp
qed

text \<open>
  Claim C2 as stated bounds the counter by the configured budget in every state. A
  configuration file may set \<open>max_recoveries: -1\<close>: \<open>applyDefaults\<close> keeps it (only 0 is
  replaced) and validation does not look at it. The counter, 0 when the loop starts and
  0 after three failing passes, then exceeds the budget.
\<close>

theorem negative_budget_counterexample:
  "MaxRecoveries (applyDefaults cfg_negative_budget) = - 1
   \<and> recoveries (cmdRun_loop (applyDefaults cfg_negative_budget) ex_url [] [] []
                  (cmdRun_init quiet_world)) = 0
   \<and> recoveries (cmdRun_loop (applyDefaults cfg_negative_budget) ex_url [] []
                  [env_down, env_down, env_down] (cmdRun_init quiet_world)) = 0
   \<and> \<not> recoveries (cmdRun_loop (applyDefaults cfg_negative_budget) ex_url [] []
                    [env_down, env_down, env_down] (cmdRun_init quiet_world))
         \<le> MaxRecoveries (applyDefaults cfg_negative_budget)"
  by (simp add: run_eval cfg_negative_budget_watchdog)

section \<open>Recovery attempts and the failure threshold\<close>






section \<open>Frames: what the operations on the world leave alone\<close>

declare waitPreferred.simps [simp del] waitAny.simps [simp del] stopPID_wait.simps [simp del]

lemma clock_only_refl: "clock_only w w"
  by (simp add: clock_only_def)

lemma clock_only_trans: "clock_only w w' \<Longrightarrow> clock_only w' w'' \<Longrightarrow> clock_only w w''"
proof -
  assume a: "clock_only w w'" and b: "clock_only w' w''"
  from a obtain t where t: "w' = w\<lparr>now := t\<rparr>" and "now w \<le> now w'"
    unfolding clock_only_def by blast
  moreover from b obtain u where u: "w'' = w'\<lparr>now := u\<rparr>" and "now w' \<le> now w''"
    unfolding clock_only_def by blast
  ultimately show ?thesis by (simp add: clock_only_def)
qed

lemma clock_only_Sleep: "clock_only w (Sleep d w)"
  by (simp add: clock_only_def Sleep_def)

lemma clock_only_fields:
  assumes "clock_only w w'"
  shows "interfaces w' = interfaces w" "tun_name w' = tun_name w" "map_order w' = map_order w"
    "pidfile w' = pidfile w" "pidfile_writable w' = pidfile_writable w" "alive w' = alive w"
    "exits_on_term w' = exits_on_term w" "exits_on_kill w' = exits_on_kill w"
    "pgrep_pids w' = pgrep_pids w" "spawn w' = spawn w" "signals w' = signals w"
    "pf_apply_env w' = pf_apply_env w" "pf_apply_calls w' = pf_apply_calls w"
    "now w \<le> now w'" "pidfile_removable w' = pidfile_removable w"
    "started_pids w' = started_pids w" "pf_apply_child w' = pf_apply_child w"
proof -
  from assms obtain t where t: "w' = w\<lparr>now := t\<rparr>" and "now w \<le> now w'"
    unfolding clock_only_def by blast
  then show "interfaces w' = interfaces w" "tun_name w' = tun_name w"
    "map_order w' = map_order w"
    "pidfile w' = pidfile w" "pidfile_writable w' = pidfile_writable w" "alive w' = alive w"
    "exits_on_term w' = exits_on_term w" "exits_on_kill w' = exits_on_kill w"
    "pgrep_pids w' = pgrep_pids w" "spawn w' = spawn w" "signals w' = signals w"
    "pf_apply_env w' = pf_apply_env w" "pf_apply_calls w' = pf_apply_calls w"
    "now w \<le> now w'" "pidfile_removable w' = pidfile_removable w"
    "started_pids w' = started_pids w" "pf_apply_child w' = pf_apply_child w"
    by simp_all
qed

lemma clock_only_reads:
  assumes "clock_only w w'"
  shows "processAlive pid w' = processAlive pid w" "readPID w' = readPID w"
    "owned w' = owned w" "started_since w w' = {}"
  using clock_only_fields[OF assms]
  by (simp_all add: processAlive_def readPID_def owned_def started_since_def)

section \<open>Stopping a process\<close>

lemma stopPID_wait_clock: "clock_only w (snd (stopPID_wait pid deadline w))"
proof (induction pid deadline w rule: stopPID_wait.induct)
  case (1 pid deadline w)
  show ?case
  proof (cases "now w < deadline \<and> processAlive pid w")
    case True
    then have "clock_only (Sleep (150 * Millisecond) w)
                 (snd (stopPID_wait pid deadline (Sleep (150 * Millisecond) w)))"
      using "1.IH" by simp
    with clock_only_Sleep have "clock_only w
                 (snd (stopPID_wait pid deadline (Sleep (150 * Millisecond) w)))"
      by (rule clock_only_trans)
    with True show ?thesis by (subst stopPID_wait.simps) simp
  next
    case False
    then show ?thesis by (subst stopPID_wait.simps) (auto simp: clock_only_refl)
  qed
qed

lemma stopPID_wait_result:
  "fst (stopPID_wait pid deadline w) \<longleftrightarrow> now w < deadline \<and> \<not> processAlive pid w"
proof (induction pid deadline w rule: stopPID_wait.induct)
  case (1 pid deadline w)
  show ?case
  proof (cases "now w < deadline \<and> processAlive pid w")
    case True
    have a: "processAlive pid (Sleep (150 * Millisecond) w)"
      using True clock_only_reads(1)[OF clock_only_Sleep] by simp
    from True have "fst (stopPID_wait pid deadline (Sleep (150 * Millisecond) w)) \<longleftrightarrow>
        now (Sleep (150 * Millisecond) w) < deadline
        \<and> \<not> processAlive pid (Sleep (150 * Millisecond) w)"
      using "1.IH" by simp
    with a True show ?thesis by (subst stopPID_wait.simps) simp
  next
    case False
    then show ?thesis by (subst stopPID_wait.simps) auto
  qed
qed

text \<open>The shape of the world after \<open>stopPID\<close>, by the two ways through it.\<close>

lemma stopPID_gone_on_term:
  assumes "\<not> processAlive pid (Kill pid SIGTERM (Kill (- pid) SIGTERM w))"
  shows "fst (stopPID pid w) = None"
    and "clock_only (Kill pid SIGTERM (Kill (- pid) SIGTERM w)) (snd (stopPID pid w))"
proof -
  let ?w2 = "Kill pid SIGTERM (Kill (- pid) SIGTERM w)"
  have d: "now ?w2 < now ?w2 + 3 * Second" by (simp add: Second_def Millisecond_def)
  with assms have f: "fst (stopPID_wait pid (now ?w2 + 3 * Second) ?w2)"
    by (simp add: stopPID_wait_result)
  then obtain w3 where s: "stopPID_wait pid (now ?w2 + 3 * Second) ?w2 = (True, w3)"
    by (cases "stopPID_wait pid (now ?w2 + 3 * Second) ?w2") simp
  then have e: "stopPID pid w = (None, w3)" by (simp add: stopPID_def Let_def)
  then show "fst (stopPID pid w) = None" by simp
  from s have "w3 = snd (stopPID_wait pid (now ?w2 + 3 * Second) ?w2)" by simp
  with e show "clock_only ?w2 (snd (stopPID pid w))" by (simp add: stopPID_wait_clock)
qed

lemma stopPID_escalates:
  assumes "processAlive pid (Kill pid SIGTERM (Kill (- pid) SIGTERM w))"
  shows "\<exists>w3. clock_only (Kill pid SIGTERM (Kill (- pid) SIGTERM w)) w3 \<and>
           snd (stopPID pid w) = Sleep (200 * Millisecond) (Kill pid SIGKILL (Kill (- pid) SIGKILL w3))
           \<and> fst (stopPID pid w) =
               (if processAlive pid (snd (stopPID pid w)) then Some (FailedToStop pid) else None)"
proof -
  let ?w2 = "Kill pid SIGTERM (Kill (- pid) SIGTERM w)"
  from assms have f: "\<not> fst (stopPID_wait pid (now ?w2 + 3 * Second) ?w2)"
    by (simp add: stopPID_wait_result)
  then obtain w3 where s: "stopPID_wait pid (now ?w2 + 3 * Second) ?w2 = (False, w3)"
    by (cases "stopPID_wait pid (now ?w2 + 3 * Second) ?w2") simp
  then have "w3 = snd (stopPID_wait pid (now ?w2 + 3 * Second) ?w2)" by simp
  then have c: "clock_only ?w2 w3" by (simp add: stopPID_wait_clock)
  from s have "snd (stopPID pid w) = Sleep (200 * Millisecond) (Kill pid SIGKILL (Kill (- pid) SIGKILL w3))
           \<and> fst (stopPID pid w) =
               (if processAlive pid (snd (stopPID pid w)) then Some (FailedToStop pid) else None)"
    by (simp add: stopPID_def Let_def)
  with c show ?thesis by blast
qed

lemma Kill_fields:
  "now (Kill target sig w) = now w" "pidfile (Kill target sig w) = pidfile w"
  "pf_apply_calls (Kill target sig w) = pf_apply_calls w"
  "signals (Kill target sig w) = signals w @ [(target, sig)]"
  "exits_on_term (Kill target sig w) = exits_on_term w"
  "exits_on_kill (Kill target sig w) = exits_on_kill w"
  "same_env w (Kill target sig w)"
  "started_pids (Kill target sig w) = started_pids w"
  "pidfile_removable (Kill target sig w) = pidfile_removable w"
  by (simp_all add: Kill_def Let_def same_env_def)

lemma Kill_alive:
  "alive (Kill target sig w) =
     (if (case sig of SIGTERM \<Rightarrow> \<bar>target\<bar> \<in> exits_on_term w
                    | SIGKILL \<Rightarrow> \<bar>target\<bar> \<in> exits_on_kill w)
      then alive w - {\<bar>target\<bar>} else alive w)"
  by (simp add: Kill_def Let_def)

lemma Kill_alive_subset: "alive (Kill target sig w) \<subseteq> alive w"
  by (auto simp: Kill_alive)

lemma Sleep_same_env: "same_env w (Sleep d w)"
  by (simp add: same_env_def Sleep_def)

lemma same_env_refl: "same_env w w"
  by (simp add: same_env_def)

lemma same_env_trans: "same_env w w' \<Longrightarrow> same_env w' w'' \<Longrightarrow> same_env w w''"
  by (simp add: same_env_def)

lemma clock_only_same_env: "clock_only w w' \<Longrightarrow> same_env w w'"
  using clock_only_fields[of w w'] by (simp add: same_env_def)

text \<open>What \<open>stopPID\<close> does to each part of the world.\<close>

lemma stopPID_signals:
  "signals (snd (stopPID pid w)) =
     signals w @ [(- pid, SIGTERM), (pid, SIGTERM)] @
     (if processAlive pid (Kill pid SIGTERM (Kill (- pid) SIGTERM w))
      then [(- pid, SIGKILL), (pid, SIGKILL)] else [])"
proof (cases "processAlive pid (Kill pid SIGTERM (Kill (- pid) SIGTERM w))")
  case False
  from stopPID_gone_on_term(2)[OF False] have
    "signals (snd (stopPID pid w)) = signals (Kill pid SIGTERM (Kill (- pid) SIGTERM w))"
    by (rule clock_only_fields)
  with False show ?thesis by (simp add: Kill_fields)
next
  case True
  from stopPID_escalates[OF True] obtain w3 where
    c: "clock_only (Kill pid SIGTERM (Kill (- pid) SIGTERM w)) w3" and
    s: "snd (stopPID pid w) =
          Sleep (200 * Millisecond) (Kill pid SIGKILL (Kill (- pid) SIGKILL w3))"
    by blast
  from c have "signals w3 = signals (Kill pid SIGTERM (Kill (- pid) SIGTERM w))"
    by (rule clock_only_fields)
  with True s show ?thesis by (simp add: Kill_fields Sleep_fields)
qed

lemma stopPID_frame:
  "pidfile (snd (stopPID pid w)) = pidfile w"
  "pf_apply_calls (snd (stopPID pid w)) = pf_apply_calls w"
  "same_env w (snd (stopPID pid w))"
  "alive (snd (stopPID pid w)) \<subseteq> alive w"
  "now w \<le> now (snd (stopPID pid w))"
  "started_pids (snd (stopPID pid w)) = started_pids w"
proof -
  let ?w2 = "Kill pid SIGTERM (Kill (- pid) SIGTERM w)"
  have e2: "same_env w ?w2" by (simp add: same_env_def Kill_fields[unfolded same_env_def])
  have a2: "alive ?w2 \<subseteq> alive w" using Kill_alive_subset by blast
  have "pidfile (snd (stopPID pid w)) = pidfile w
        \<and> pf_apply_calls (snd (stopPID pid w)) = pf_apply_calls w
        \<and> same_env w (snd (stopPID pid w))
        \<and> alive (snd (stopPID pid w)) \<subseteq> alive w
        \<and> now w \<le> now (snd (stopPID pid w))
        \<and> started_pids (snd (stopPID pid w)) = started_pids w"
  proof (cases "processAlive pid ?w2")
    case False
    note c = stopPID_gone_on_term(2)[OF False]
    from clock_only_fields[OF c] clock_only_same_env[OF c] e2 a2 show ?thesis
      by (simp add: Kill_fields) (rule same_env_trans)
  next
    case True
    from stopPID_escalates[OF True] obtain w3 where
      c: "clock_only ?w2 w3" and
      s: "snd (stopPID pid w) =
            Sleep (200 * Millisecond) (Kill pid SIGKILL (Kill (- pid) SIGKILL w3))"
      by blast
    let ?w5 = "Kill pid SIGKILL (Kill (- pid) SIGKILL w3)"
    have e5: "same_env w3 ?w5" by (simp add: same_env_def Kill_fields[unfolded same_env_def])
    have a5: "alive ?w5 \<subseteq> alive w3" using Kill_alive_subset by blast
    have e: "same_env w (Sleep (200 * Millisecond) ?w5)"
      using e2 clock_only_same_env[OF c] e5 Sleep_same_env same_env_trans by blast
    have "alive w3 = alive ?w2" using c by (rule clock_only_fields)
    with a2 a5 have al: "alive (Sleep (200 * Millisecond) ?w5) \<subseteq> alive w"
      by (simp add: Sleep_fields)
    have "now ?w2 \<le> now w3" using c by (rule clock_only_fields)
    then have nw: "now w \<le> now (Sleep (200 * Millisecond) ?w5)"
      by (simp add: Kill_fields Sleep_def)
    have pf: "pidfile w3 = pidfile ?w2" "pf_apply_calls w3 = pf_apply_calls ?w2"
      "started_pids w3 = started_pids ?w2"
      using c by (rule clock_only_fields)+
    from pf al nw e s show ?thesis
      by (simp add: Kill_fields Sleep_fields)
  qed
  then show "pidfile (snd (stopPID pid w)) = pidfile w"
    "pf_apply_calls (snd (stopPID pid w)) = pf_apply_calls w"
    "same_env w (snd (stopPID pid w))"
    "alive (snd (stopPID pid w)) \<subseteq> alive w"
    "now w \<le> now (snd (stopPID pid w))"
    "started_pids (snd (stopPID pid w)) = started_pids w"
    by simp_all
qed

lemma stopPID_result:
  "fst (stopPID pid w) =
     (if processAlive pid (snd (stopPID pid w)) then Some (FailedToStop pid) else None)"
proof (cases "processAlive pid (Kill pid SIGTERM (Kill (- pid) SIGTERM w))")
  case False
  note c = stopPID_gone_on_term(2)[OF False]
  from False clock_only_reads(1)[OF c] have "\<not> processAlive pid (snd (stopPID pid w))" by simp
  with stopPID_gone_on_term(1)[OF False] show ?thesis by simp
next
  case True
  from stopPID_escalates[OF True] show ?thesis by blast
qed

lemma stopPID_obeys:
  assumes "pid \<in> exits_on_term w \<or> pid \<in> exits_on_kill w"
  shows "\<not> processAlive pid (snd (stopPID pid w))"
proof (cases "processAlive pid (Kill pid SIGTERM (Kill (- pid) SIGTERM w))")
  case False
  note c = stopPID_gone_on_term(2)[OF False]
  from False clock_only_reads(1)[OF c] show ?thesis by simp
next
  case True
  then have p: "1 < pid" by (simp add: processAlive_def split: if_splits)
  from True p have nt: "pid \<notin> exits_on_term w"
    by (auto simp: processAlive_def Kill_alive Kill_fields)
  with assms have k: "pid \<in> exits_on_kill w" by simp
  from stopPID_escalates[OF True] obtain w3 where
    c: "clock_only (Kill pid SIGTERM (Kill (- pid) SIGTERM w)) w3" and
    s: "snd (stopPID pid w) =
          Sleep (200 * Millisecond) (Kill pid SIGKILL (Kill (- pid) SIGKILL w3))"
    by blast
  from clock_only_fields(8)[OF c] have "exits_on_kill w3 = exits_on_kill w"
    by (simp add: Kill_fields)
  with k p s show ?thesis
    by (auto simp: processAlive_def Kill_alive Kill_fields Sleep_fields)
qed

lemma stopPID_stubborn:
  assumes "processAlive pid w" and "pid \<notin> exits_on_term w" and "pid \<notin> exits_on_kill w"
  shows "processAlive pid (snd (stopPID pid w))"
proof -
  from assms(1) have p: "1 < pid" and a: "pid \<in> alive w"
    by (simp_all add: processAlive_def split: if_splits)
  with assms have t: "processAlive pid (Kill pid SIGTERM (Kill (- pid) SIGTERM w))"
    by (simp add: processAlive_def Kill_alive Kill_fields)
  from stopPID_escalates[OF t] obtain w3 where
    c: "clock_only (Kill pid SIGTERM (Kill (- pid) SIGTERM w)) w3" and
    s: "snd (stopPID pid w) =
          Sleep (200 * Millisecond) (Kill pid SIGKILL (Kill (- pid) SIGKILL w3))"
    by blast
  from clock_only_fields(8)[OF c] have k: "exits_on_kill w3 = exits_on_kill w"
    by (simp add: Kill_fields)
  from clock_only_reads(1)[OF c] t have "processAlive pid w3" by simp
  with p k assms(3) s show ?thesis
    by (simp add: processAlive_def Kill_alive Kill_fields Sleep_fields)
qed

section \<open>\<open>StopIfOwned\<close> and the ownership record\<close>

lemma StopIfOwned_no_record: "\<not> snd (readPID w) \<Longrightarrow> StopIfOwned w = (None, w)"
  by (cases "readPID w") (simp add: StopIfOwned_def)

lemma StopIfOwned_dead:
  "snd (readPID w) \<Longrightarrow> \<not> processAlive (fst (readPID w)) w \<Longrightarrow>
   StopIfOwned w = (None, removePidFile w)"
  by (cases "readPID w") (simp add: StopIfOwned_def)

lemma StopIfOwned_alive:
  "snd (readPID w) \<Longrightarrow> processAlive (fst (readPID w)) w \<Longrightarrow>
   StopIfOwned w =
     (if processAlive (fst (readPID w)) (snd (stopPID (fst (readPID w)) w))
      then (Some (FailedToStop (fst (readPID w))), snd (stopPID (fst (readPID w)) w))
      else (None, removePidFile (snd (stopPID (fst (readPID w)) w))))"
proof -
  assume a: "snd (readPID w)" "processAlive (fst (readPID w)) w"
  obtain pid ok where r: "readPID w = (pid, ok)" by (cases "readPID w")
  obtain e w' where s: "stopPID pid w = (e, w')" by (cases "stopPID pid w")
  from stopPID_result[of pid w] s
  have e: "e = (if processAlive pid w' then Some (FailedToStop pid) else None)" by simp
  from a r s e show ?thesis by (simp add: StopIfOwned_def)
qed

lemma removePidFile_fields:
  "pidfile (removePidFile w) = (if pidfile_removable w then NoFile else pidfile w)"
  "signals (removePidFile w) = signals w"
  "alive (removePidFile w) = alive w" "now (removePidFile w) = now w"
  "pf_apply_calls (removePidFile w) = pf_apply_calls w" "same_env w (removePidFile w)"
  "processAlive pid (removePidFile w) = processAlive pid w"
  "readPID (removePidFile w) = (if pidfile_removable w then (0, False) else readPID w)"
  "owned (removePidFile w) = (if pidfile_removable w then {} else owned w)"
  "started_pids (removePidFile w) = started_pids w"
  "exits_on_term (removePidFile w) = exits_on_term w"
  "exits_on_kill (removePidFile w) = exits_on_kill w"
  by (simp_all add: removePidFile_def same_env_def processAlive_def readPID_def owned_def)

lemma StopIfOwned_cases:
  "(\<not> snd (readPID w) \<and> StopIfOwned w = (None, w))
   \<or> (snd (readPID w) \<and> \<not> processAlive (fst (readPID w)) w
       \<and> StopIfOwned w = (None, removePidFile w))
   \<or> (snd (readPID w) \<and> processAlive (fst (readPID w)) w
       \<and> \<not> processAlive (fst (readPID w)) (snd (stopPID (fst (readPID w)) w))
       \<and> StopIfOwned w = (None, removePidFile (snd (stopPID (fst (readPID w)) w))))
   \<or> (snd (readPID w) \<and> processAlive (fst (readPID w)) w
       \<and> processAlive (fst (readPID w)) (snd (stopPID (fst (readPID w)) w))
       \<and> StopIfOwned w =
           (Some (FailedToStop (fst (readPID w))), snd (stopPID (fst (readPID w)) w)))"
  using StopIfOwned_no_record[of w] StopIfOwned_dead[of w] StopIfOwned_alive[of w]
  by (cases "snd (readPID w)"; cases "processAlive (fst (readPID w)) w";
      cases "processAlive (fst (readPID w)) (snd (stopPID (fst (readPID w)) w))") simp_all

text \<open>
  \<open>StopOwned\<close> (restart.go) removes the record on every return but a cancellation, and
  \<open>StopIfOwned\<close> only when it returns success.
\<close>

lemma StopOwned_loop_pidfile:
  "pidfile_removable w \<Longrightarrow> fst (StopOwned_loop pid sel w) \<noteq> Some CtxErr \<Longrightarrow>
   pidfile (snd (StopOwned_loop pid sel w)) = NoFile"
proof (induction pid sel w rule: StopOwned_loop.induct)
  case (1 pid sel w)
  show ?case
  proof (cases "processAlive pid w")
    case False
    with "1.prems"(1) show ?thesis by (simp add: removePidFile_fields)
  next
    case True
    show ?thesis
    proof (cases sel)
      case Nil
      with True "1.prems"(1) show ?thesis
        by (simp add: Let_def removePidFile_fields Sleep_fields Kill_fields)
    next
      case (Cons c rest)
      with True "1.prems" "1.IH" show ?thesis
        by (cases c) (simp_all add: Let_def removePidFile_fields Sleep_fields Kill_fields)
    qed
  qed
qed

lemma StopOwned_pidfile:
  "pidfile_removable w \<Longrightarrow> snd (readPID w) \<Longrightarrow> fst (StopOwned sel w) \<noteq> Some CtxErr \<Longrightarrow>
   pidfile (snd (StopOwned sel w)) = NoFile"
  using StopOwned_loop_pidfile[of "Kill (fst (readPID w)) SIGTERM w" "fst (readPID w)" sel]
  by (cases "readPID w")
     (simp add: StopOwned_def removePidFile_fields Kill_fields split: if_splits)

lemma StopIfOwned_record:
  "snd (readPID w) \<Longrightarrow>
   pidfile (snd (StopIfOwned w)) =
     (if fst (StopIfOwned w) = None \<and> pidfile_removable w then NoFile else pidfile w)"
proof -
  assume r: "snd (readPID w)"
  have "pidfile_removable (snd (stopPID (fst (readPID w)) w)) = pidfile_removable w"
    using stopPID_frame(3)[of w "fst (readPID w)"] by (simp add: same_env_def)
  with StopIfOwned_cases[of w] r show ?thesis
    by (elim disjE conjE) (simp_all add: removePidFile_fields stopPID_frame)
qed

lemma stubborn_world_reads:
  "readPID stubborn_world = (4242, True)" "processAlive 4242 stubborn_world"
  "4242 \<notin> exits_on_term stubborn_world" "4242 \<notin> exits_on_kill stubborn_world"
  "pidfile stubborn_world = PidText 4242" "pidfile_removable stubborn_world"
  by (simp_all add: stubborn_world_def quiet_world_def readPID_def processAlive_def)

text \<open>
  Claim C5 fails on the code. In a world whose pid file can be removed and whose
  recorded process (4242) survives \<open>SIGTERM\<close> and \<open>SIGKILL\<close>, \<open>StopIfOwned\<close> returns the
  error of \<open>stopPID\<close> before it reaches \<open>os.Remove\<close>: when the call returns, the record
  is still there and names the process. In the same world \<open>StopOwned\<close> of restart.go,
  whose forced stop fails in the same way, removes the record before it returns its
  error.
\<close>

theorem StopIfOwned_keeps_record_after_failed_stop:
  "readPID stubborn_world = (4242, True)
   \<and> pidfile_removable stubborn_world
   \<and> fst (StopIfOwned stubborn_world) = Some (FailedToStop 4242)
   \<and> pidfile (snd (StopIfOwned stubborn_world)) = PidText 4242
   \<and> processAlive 4242 (snd (StopIfOwned stubborn_world))
   \<and> fst (StopOwned [] stubborn_world) = Some (DidNotStopInTime 4242)
   \<and> pidfile (snd (StopOwned [] stubborn_world)) = NoFile
   \<and> processAlive 4242 (snd (StopOwned [] stubborn_world))"
proof -
  have s: "processAlive 4242 (snd (stopPID 4242 stubborn_world))"
    by (rule stopPID_stubborn) (simp_all add: stubborn_world_reads)
  have "StopIfOwned stubborn_world =
          (Some (FailedToStop 4242), snd (stopPID 4242 stubborn_world))"
    using StopIfOwned_alive[of stubborn_world] s by (simp add: stubborn_world_reads)
  then have a: "fst (StopIfOwned stubborn_world) = Some (FailedToStop 4242)"
    "pidfile (snd (StopIfOwned stubborn_world)) = PidText 4242"
    "processAlive 4242 (snd (StopIfOwned stubborn_world))"
    using s by (simp_all add: stubborn_world_reads stopPID_frame)
  have b: "fst (StopOwned [] stubborn_world) = Some (DidNotStopInTime 4242)"
    "pidfile (snd (StopOwned [] stubborn_world)) = NoFile"
    "processAlive 4242 (snd (StopOwned [] stubborn_world))"
    by (simp_all add: StopOwned_def stubborn_world_def quiet_world_def readPID_def
          processAlive_def Kill_def removePidFile_def Sleep_def Let_def)
  from a b show ?thesis by (simp add: stubborn_world_reads)
qed

section \<open>Waiting for the interface\<close>

lemma Sleep_200: "Sleep (200 * Millisecond) w = w\<lparr>now := now w + 200 * Millisecond\<rparr>"
  by (simp add: Sleep_def Millisecond_def)

lemma waitPreferred_clock: "clock_only w (snd (waitPreferred p deadline w))"
proof (induction p deadline w rule: waitPreferred.induct)
  case (1 p deadline w)
  show ?case
  proof (cases "now w < deadline \<and> utunHasIPv4 p w \<noteq> Some True")
    case True
    then have "clock_only (Sleep (200 * Millisecond) w)
                 (snd (waitPreferred p deadline (Sleep (200 * Millisecond) w)))"
      using "1.IH" by simp
    with clock_only_Sleep have "clock_only w
                 (snd (waitPreferred p deadline (Sleep (200 * Millisecond) w)))"
      by (rule clock_only_trans)
    with True show ?thesis by (subst waitPreferred.simps) simp
  next
    case False
    then show ?thesis by (subst waitPreferred.simps) (auto simp: clock_only_refl)
  qed
qed

lemma waitPreferred_result:
  "fst (waitPreferred p deadline w) = Inr p
   \<or> fst (waitPreferred p deadline w) = Inl (PreferredNotReady p)"
proof (induction p deadline w rule: waitPreferred.induct)
  case (1 p deadline w)
  show ?case
  proof (cases "now w < deadline \<and> utunHasIPv4 p w \<noteq> Some True")
    case True
    with "1.IH" show ?thesis by (subst (1 2) waitPreferred.simps) simp
  next
    case False
    then show ?thesis by (subst (1 2) waitPreferred.simps) auto
  qed
qed

lemma waitPreferred_never:
  "(\<And>t. now w \<le> t \<Longrightarrow> t < deadline \<Longrightarrow> utunHasIPv4 p (w\<lparr>now := t\<rparr>) \<noteq> Some True) \<Longrightarrow>
   fst (waitPreferred p deadline w) = Inl (PreferredNotReady p)"
proof (induction p deadline w rule: waitPreferred.induct)
  case (1 p deadline w)
  show ?case
  proof (cases "now w < deadline")
    case True
    with "1.prems"[of "now w"] have n: "utunHasIPv4 p w \<noteq> Some True" by simp
    have "fst (waitPreferred p deadline (Sleep (200 * Millisecond) w)) =
            Inl (PreferredNotReady p)"
    proof (rule "1.IH"[OF True n])
      fix t
      assume "now (Sleep (200 * Millisecond) w) \<le> t" and d: "t < deadline"
      then have "now w \<le> t" by (simp add: Sleep_def Millisecond_def)
      from "1.prems"[OF this d]
      show "utunHasIPv4 p (Sleep (200 * Millisecond) w\<lparr>now := t\<rparr>) \<noteq> Some True"
        by (simp add: Sleep_200)
    qed
    with True n show ?thesis by (subst waitPreferred.simps) simp
  next
    case False
    then show ?thesis by (subst waitPreferred.simps) simp
  qed
qed

lemma waitAny_step:
  "waitAny beforeSet beforeNoIPv4 timeout deadline w =
     (if now w < deadline then
        (case findUTUNWithIPv4 w of
           None \<Rightarrow> waitAny beforeSet beforeNoIPv4 timeout deadline (Sleep (200 * Millisecond) w)
         | Some utun \<Rightarrow>
             if utun \<noteq> [] then (Inr utun, w)
             else waitAny beforeSet beforeNoIPv4 timeout deadline (Sleep (200 * Millisecond) w))
      else (Inl (NoUtunWithin timeout), w))"
  by (subst waitAny.simps) (simp split: option.splits)

lemma waitAny_clock: "clock_only w (snd (waitAny beforeSet beforeNoIPv4 timeout deadline w))"
proof (induction beforeSet beforeNoIPv4 timeout deadline w rule: waitAny.induct)
  case (1 beforeSet beforeNoIPv4 timeout deadline w)
  show ?case
  proof (cases "now w < deadline")
    case False
    then show ?thesis by (subst waitAny_step) (simp add: clock_only_refl)
  next
    case True
    show ?thesis
    proof (cases "findUTUNWithIPv4 w")
      case None
      with True "1.IH"(1) clock_only_Sleep clock_only_trans show ?thesis
        by (subst waitAny_step) fastforce
    next
      case (Some utun)
      show ?thesis
      proof (cases "utun = []")
        case False
        with True Some show ?thesis by (subst waitAny_step) (simp add: clock_only_refl)
      next
        case e: True
        from "1.IH"(2)[OF True Some] e
        have "clock_only (Sleep (200 * Millisecond) w)
                (snd (waitAny beforeSet beforeNoIPv4 timeout deadline (Sleep (200 * Millisecond) w)))"
          by simp
        with clock_only_Sleep have "clock_only w
                (snd (waitAny beforeSet beforeNoIPv4 timeout deadline (Sleep (200 * Millisecond) w)))"
          by (rule clock_only_trans)
        with True Some e show ?thesis by (subst waitAny_step) simp
      qed
    qed
  qed
qed

text \<open>
  The loop without a preferred name returns the first utun with IPv4 that
  \<open>findUTUNWithIPv4\<close> reports, whatever the two snapshots hold: all three \<open>return\<close>
  statements inside the loop return it.
\<close>

lemma waitAny_ignores_snapshot:
  "waitAny beforeSet beforeNoIPv4 timeout deadline w = waitAny None None timeout deadline w"
proof (induction beforeSet beforeNoIPv4 timeout deadline w rule: waitAny.induct)
  case (1 beforeSet beforeNoIPv4 timeout deadline w)
  show ?case
  proof (cases "now w < deadline")
    case False
    then show ?thesis by (subst (1 2) waitAny_step) simp
  next
    case True
    show ?thesis
    proof (cases "findUTUNWithIPv4 w")
      case None
      with True "1.IH"(1) show ?thesis by (subst (1 2) waitAny_step) simp
    next
      case (Some utun)
      show ?thesis
      proof (cases "utun = []")
        case False
        with True Some show ?thesis by (subst (1 2) waitAny_step) simp
      next
        case e: True
        from "1.IH"(2)[OF True Some] e True Some show ?thesis
          by (subst (1 2) waitAny_step) simp
      qed
    qed
  qed
qed

lemma waitAny_never:
  "(\<And>t. now w \<le> t \<Longrightarrow> t < deadline \<Longrightarrow> findUTUNWithIPv4 (w\<lparr>now := t\<rparr>) = None) \<Longrightarrow>
   fst (waitAny beforeSet beforeNoIPv4 timeout deadline w) = Inl (NoUtunWithin timeout)"
proof (induction beforeSet beforeNoIPv4 timeout deadline w rule: waitAny.induct)
  case (1 beforeSet beforeNoIPv4 timeout deadline w)
  show ?case
  proof (cases "now w < deadline")
    case True
    with "1.prems"[of "now w"] have n: "findUTUNWithIPv4 w = None" by simp
    have "fst (waitAny beforeSet beforeNoIPv4 timeout deadline (Sleep (200 * Millisecond) w)) =
            Inl (NoUtunWithin timeout)"
    proof (rule "1.IH"(1)[OF True n])
      fix t
      assume "now (Sleep (200 * Millisecond) w) \<le> t" and d: "t < deadline"
      then have "now w \<le> t" by (simp add: Sleep_def Millisecond_def)
      from "1.prems"[OF this d]
      show "findUTUNWithIPv4 (Sleep (200 * Millisecond) w\<lparr>now := t\<rparr>) = None"
        by (simp add: Sleep_200)
    qed
    with True n show ?thesis by (subst waitAny_step) simp
  next
    case False
    then show ?thesis by (subst waitAny_step) simp
  qed
qed

lemma waitForUTUNReady_clock:
  "clock_only w (snd (waitForUTUNReady beforeSet beforeNoIPv4 timeout preferUTUN w))"
  by (simp add: waitForUTUNReady_def Let_def waitPreferred_clock waitAny_clock)

lemma pickReady_clock:
  "clock_only w (snd (pickReady beforeSet beforeNoIPv4 timeout preferUTUN w))"
  by (simp add: pickReady_def Let_def waitForUTUNReady_clock clock_only_refl
           split: option.splits prod.splits)

section \<open>Starting a new process\<close>

lemma startSingBox_cases:
  "(spawn w (now w) = None \<and> startSingBox w = (Inl StartFailed, w))
   \<or> (\<exists>n. spawn w (now w) = Some n \<and> startSingBox w = (Inr (int n), started n w))"
  by (cases "spawn w (now w)") (simp_all add: startSingBox_def started_def)

lemma EnsureRunning_start_cases:
  "(spawn w (now w) = None
      \<and> EnsureRunning_start bs bn timeout p w = (Inl StartFailed, w))
   \<or> (\<exists>n. spawn w (now w) = Some n \<and> \<not> pidfile_writable w
      \<and> EnsureRunning_start bs bn timeout p w =
          (Inl PidfileWrite, snd (stopPID (int n) (started n w))))
   \<or> (\<exists>n err w3. spawn w (now w) = Some n \<and> pidfile_writable w
      \<and> waitForUTUNReady (Some bs) (Some bn) timeout p (recorded n w) = (Inl err, w3)
      \<and> EnsureRunning_start bs bn timeout p w =
          (Inl (StartedNoUtun err), removePidFile (snd (stopPID (int n) w3))))
   \<or> (\<exists>n utun w3. spawn w (now w) = Some n \<and> pidfile_writable w
      \<and> waitForUTUNReady (Some bs) (Some bn) timeout p (recorded n w) = (Inr utun, w3)
      \<and> EnsureRunning_start bs bn timeout p w =
          (Inr \<lparr>Running = True, PID = int n, OwnedByUs = True,
                AdoptedExternal = False, NewUTUN = utun\<rparr>, w3))"
proof (cases "spawn w (now w)")
  case None
  then show ?thesis by (simp add: EnsureRunning_start_def startSingBox_def)
next
  case (Some n)
  then have s: "startSingBox w = (Inr (int n), started n w)"
    by (simp add: startSingBox_def started_def)
  show ?thesis
  proof (cases "pidfile_writable w")
    case False
    then have "writePID (int n) (started n w) = (False, started n w)"
      by (simp add: writePID_def started_def)
    with Some s False show ?thesis by (simp add: EnsureRunning_start_def)
  next
    case True
    then have wr: "writePID (int n) (started n w) = (True, recorded n w)"
      by (simp add: writePID_def started_def recorded_def)
    obtain r w3 where wt:
      "waitForUTUNReady (Some bs) (Some bn) timeout p (recorded n w) = (r, w3)"
      by (cases "waitForUTUNReady (Some bs) (Some bn) timeout p (recorded n w)")
    show ?thesis
    proof (cases r)
      case (Inl err)
      with Some s True wr wt show ?thesis by (simp add: EnsureRunning_start_def)
    next
      case (Inr utun)
      with Some s True wr wt show ?thesis by (simp add: EnsureRunning_start_def)
    qed
  qed
qed

lemma started_fields:
  "pidfile (started n w) = pidfile w" "signals (started n w) = signals w"
  "now (started n w) = now w" "pf_apply_calls (started n w) = pf_apply_calls w"
  "alive (started n w) = insert (int n) (alive w)" "same_env w (started n w)"
  "exits_on_term (started n w) = exits_on_term w" "exits_on_kill (started n w) = exits_on_kill w"
  "started_pids (started n w) = started_pids w @ [int n]"
  "pidfile_removable (started n w) = pidfile_removable w"
  by (simp_all add: started_def same_env_def)

lemma recorded_fields:
  "pidfile (recorded n w) = PidText (int n)" "signals (recorded n w) = signals w"
  "now (recorded n w) = now w" "pf_apply_calls (recorded n w) = pf_apply_calls w"
  "alive (recorded n w) = insert (int n) (alive w)" "same_env w (recorded n w)"
  "exits_on_term (recorded n w) = exits_on_term w" "exits_on_kill (recorded n w) = exits_on_kill w"
  "started_pids (recorded n w) = started_pids w @ [int n]"
  "pidfile_removable (recorded n w) = pidfile_removable w"
  by (simp_all add: recorded_def started_def same_env_def)

section \<open>The four branches of \<open>EnsureRunning\<close>, together\<close>

lemma EnsureRunning_cases:
  "(listUTUN w = None \<and> EnsureRunning cfg timeout w = (Inl ListUtunBefore, w))
   \<or> (\<exists>bs bn. listUTUN w = Some (bs, bn)
        \<and> snd (readPID w) \<and> processAlive (fst (readPID w)) w
        \<and> EnsureRunning cfg timeout w =
            (case pickReady bs bn timeout (tun_name w) w of
               (Inl err, w') \<Rightarrow> (Inl (OwnedNoUtun err), w')
             | (Inr utun, w') \<Rightarrow>
                 (Inr \<lparr>Running = True, PID = fst (readPID w), OwnedByUs = True,
                       AdoptedExternal = False, NewUTUN = utun\<rparr>, w')))
   \<or> (\<exists>bs bn epid. listUTUN w = Some (bs, bn)
        \<and> \<not> (snd (readPID w) \<and> processAlive (fst (readPID w)) w)
        \<and> findExternalSingBoxPID w = (epid, True)
        \<and> EnsureRunning cfg timeout w =
            (case pickReady bs bn timeout (tun_name w) w of
               (Inl err, w') \<Rightarrow> (Inl (AdoptedNoUtun epid err), w')
             | (Inr utun, w') \<Rightarrow>
                 (Inr \<lparr>Running = True, PID = epid, OwnedByUs = False,
                       AdoptedExternal = False, NewUTUN = utun\<rparr>, w')))
   \<or> (\<exists>bs bn. listUTUN w = Some (bs, bn)
        \<and> \<not> (snd (readPID w) \<and> processAlive (fst (readPID w)) w)
        \<and> EnsureRunning cfg timeout w = EnsureRunning_start bs bn timeout (tun_name w) w)"
proof (cases "listUTUN w")
  case None
  then show ?thesis by (simp add: EnsureRunning_list_fails)
next
  case (Some b)
  obtain bs bn where b: "listUTUN w = Some (bs, bn)" using Some by (cases b) simp
  show ?thesis
  proof (cases "snd (readPID w) \<and> processAlive (fst (readPID w)) w")
    case True
    then have "readPID w = (fst (readPID w), True)" by (cases "readPID w") simp
    from EnsureRunning_owned[OF b this] True b show ?thesis by simp
  next
    case False
    show ?thesis
    proof (cases "boolVal (SingBoxAdoptExternal cfg) True \<and> snd (findExternalSingBoxPID w)")
      case True
      then have f: "findExternalSingBoxPID w = (fst (findExternalSingBoxPID w), True)"
        by (cases "findExternalSingBoxPID w") simp
      from True have "boolVal (SingBoxAdoptExternal cfg) True" by simp
      from EnsureRunning_adopts[OF this b False f] False b f show ?thesis by auto
    next
      case nf: False
      from EnsureRunning_starts[OF b False nf] False b show ?thesis by simp
    qed
  qed
qed

section \<open>The preferred interface\<close>

text \<open>
  With a preferred name, \<open>waitForUTUNReady\<close> returns that name or its time-out error, and
  so does the branch of \<open>EnsureRunning\<close> that starts a process. When \<open>EnsureRunning\<close>
  reports another name, the process was running already and the name is the one that
  \<open>pickAnyUTUNWithIPv4\<close> picked in \<open>pickReady\<close>.
\<close>

lemma waitForUTUNReady_preferred:
  assumes "preferUTUN \<noteq> []"
  shows "fst (waitForUTUNReady beforeSet beforeNoIPv4 timeout preferUTUN w) = Inr preferUTUN
         \<or> fst (waitForUTUNReady beforeSet beforeNoIPv4 timeout preferUTUN w) =
             Inl (PreferredNotReady preferUTUN)"
  using assms waitPreferred_result[of preferUTUN "now w + timeout" w]
  by (simp add: waitForUTUNReady_def Let_def)

lemma waitForUTUNReady_preferred_never:
  assumes "preferUTUN \<noteq> []"
    and "\<forall>t. now w \<le> t \<and> t < now w + timeout \<longrightarrow>
             utunHasIPv4 preferUTUN (w\<lparr>now := t\<rparr>) \<noteq> Some True"
  shows "fst (waitForUTUNReady beforeSet beforeNoIPv4 timeout preferUTUN w) =
           Inl (PreferredNotReady preferUTUN)"
proof -
  have "fst (waitPreferred preferUTUN (now w + timeout) w) = Inl (PreferredNotReady preferUTUN)"
    by (rule waitPreferred_never) (use assms(2) in blast)
  with assms(1) show ?thesis by (simp add: waitForUTUNReady_def Let_def)
qed

lemma EnsureRunning_start_preferred:
  assumes "preferUTUN \<noteq> []"
    and "fst (EnsureRunning_start bs bn timeout preferUTUN w) = Inr st"
  shows "NewUTUN st = preferUTUN"
proof -
  from EnsureRunning_start_cases[of w bs bn timeout preferUTUN] assms(2)
  obtain n utun w3 where
    wt: "waitForUTUNReady (Some bs) (Some bn) timeout preferUTUN (recorded n w) = (Inr utun, w3)"
    and st: "st = \<lparr>Running = True, PID = int n, OwnedByUs = True,
                   AdoptedExternal = False, NewUTUN = utun\<rparr>"
    by auto
  from waitForUTUNReady_preferred[OF assms(1), of "Some bs" "Some bn" timeout "recorded n w"] wt
  have "utun = preferUTUN" by simp
  with st show ?thesis by simp
qed

lemma pickReady_result:
  assumes "fst (pickReady bs bn timeout preferUTUN w) = Inr utun" and "preferUTUN \<noteq> []"
  shows "utun = preferUTUN
         \<or> (\<exists>a an. listUTUN w = Some (a, an)
                \<and> utun = pickAnyUTUNWithIPv4 (map_order w) a an)"
proof (cases "listUTUN w")
  case None
  with assms(1) show ?thesis by (simp add: pickReady_def)
next
  case (Some l)
  obtain a an where l: "listUTUN w = Some (a, an)" using Some by (cases l) simp
  show ?thesis
  proof (cases "pickAnyUTUNWithIPv4 (map_order w) a an = []")
    case False
    with assms(1) l show ?thesis by (simp add: pickReady_def Let_def)
  next
    case True
    with assms(1) l
    have "fst (waitForUTUNReady (Some bs) (Some bn) timeout preferUTUN w) = Inr utun"
      by (simp add: pickReady_def Let_def)
    with waitForUTUNReady_preferred[OF assms(2), of "Some bs" "Some bn" timeout w]
    show ?thesis by simp
  qed
qed

lemma EnsureRunning_other_name:
  assumes "tun_name w \<noteq> []" and "fst (EnsureRunning cfg timeout w) = Inr st"
    and "NewUTUN st \<noteq> tun_name w"
  shows "processAlive (PID st) w
         \<and> (\<exists>a an. listUTUN w = Some (a, an)
                \<and> NewUTUN st = pickAnyUTUNWithIPv4 (map_order w) a an)"
proof -
  from EnsureRunning_cases[of w cfg timeout]
  consider
    (fails) "EnsureRunning cfg timeout w = (Inl ListUtunBefore, w)"
  | (owned) bs bn where "processAlive (fst (readPID w)) w"
      "EnsureRunning cfg timeout w =
         (case pickReady bs bn timeout (tun_name w) w of
            (Inl err, w') \<Rightarrow> (Inl (OwnedNoUtun err), w')
          | (Inr utun, w') \<Rightarrow>
              (Inr \<lparr>Running = True, PID = fst (readPID w), OwnedByUs = True,
                    AdoptedExternal = False, NewUTUN = utun\<rparr>, w'))"
  | (adopted) bs bn epid where "findExternalSingBoxPID w = (epid, True)"
      "EnsureRunning cfg timeout w =
         (case pickReady bs bn timeout (tun_name w) w of
            (Inl err, w') \<Rightarrow> (Inl (AdoptedNoUtun epid err), w')
          | (Inr utun, w') \<Rightarrow>
              (Inr \<lparr>Running = True, PID = epid, OwnedByUs = False,
                    AdoptedExternal = False, NewUTUN = utun\<rparr>, w'))"
  | (start) bs bn where
      "EnsureRunning cfg timeout w = EnsureRunning_start bs bn timeout (tun_name w) w"
    by blast
  then show ?thesis
  proof cases
    case fails
    with assms(2) show ?thesis by simp
  next
    case (owned bs bn)
    obtain r w' where p: "pickReady bs bn timeout (tun_name w) w = (r, w')"
      by (cases "pickReady bs bn timeout (tun_name w) w")
    with owned(2) assms(2) obtain utun where r: "r = Inr utun"
      and st: "st = \<lparr>Running = True, PID = fst (readPID w), OwnedByUs = True,
                     AdoptedExternal = False, NewUTUN = utun\<rparr>"
      by (cases r) auto
    from p r have "fst (pickReady bs bn timeout (tun_name w) w) = Inr utun" by simp
    from pickReady_result[OF this assms(1)] st assms(3) owned(1) show ?thesis by auto
  next
    case (adopted bs bn epid)
    obtain r w' where p: "pickReady bs bn timeout (tun_name w) w = (r, w')"
      by (cases "pickReady bs bn timeout (tun_name w) w")
    with adopted(2) assms(2) obtain utun where r: "r = Inr utun"
      and st: "st = \<lparr>Running = True, PID = epid, OwnedByUs = False,
                     AdoptedExternal = False, NewUTUN = utun\<rparr>"
      by (cases r) auto
    from p r have "fst (pickReady bs bn timeout (tun_name w) w) = Inr utun" by simp
    from pickReady_result[OF this assms(1)] st assms(3)
      findExternalSingBoxPID_alive[OF adopted(1)]
    show ?thesis by auto
  next
    case (start bs bn)
    with assms(2) have "fst (EnsureRunning_start bs bn timeout (tun_name w) w) = Inr st"
      by simp
    from EnsureRunning_start_preferred[OF assms(1) this] assms(3) show ?thesis by simp
  qed
qed

lemmas world_eval2 =
  quiet_world_def owned_world_def pinned_world_def busy_world_def starting_world_def
  utun_v4_def utun_no_v4_def env_ok_def
  listUTUN_def readPID_def processAlive_def findExternalSingBoxPID_def hasV4_def HasPrefix_def
  pickReady_def pickAnyUTUNWithIPv4_def utunHasIPv4_def findUTUNWithIPv4_def Let_def
  Millisecond_def Second_def Sleep_def

text \<open>
  Claim C4 fails on the code. \<open>EnsureRunning\<close> reads the interface name that the
  sing-box configuration pins (its comment: "prefer waiting for that interface"), and
  the branch that starts a new process reports no other name (lemma
  \<open>EnsureRunning_start_preferred\<close>). The closure \<open>pickReady\<close>, which resolves the interface
  when the process runs already, returns what \<open>pickAnyUTUNWithIPv4\<close> picks before it
  looks at the pinned name. In a world in which
  the owned process runs, the configuration pins \<open>utun66\<close> and the tunnel \<open>utun0\<close> of
  another subsystem has IPv4, \<open>EnsureRunning\<close> reports \<open>utun0\<close>. In a world with the same
  two tunnels in which the process has to be started, it waits until \<open>utun66\<close> is ready
  and reports that, although \<open>utun0\<close> was ready first.
\<close>

theorem EnsureRunning_ignores_preferred_interface:
  "tun_name pinned_world = ''utun66''
   \<and> EnsureRunning cfg_defaults (8 * Second) pinned_world =
       (Inr \<lparr>Running = True, PID = 4242, OwnedByUs = True, AdoptedExternal = False,
             NewUTUN = ''utun0''\<rparr>, pinned_world)
   \<and> tun_name starting_world = ''utun66''
   \<and> fst (EnsureRunning cfg_defaults (8 * Second) starting_world) =
       Inr \<lparr>Running = True, PID = 4242, OwnedByUs = True, AdoptedExternal = False,
            NewUTUN = ''utun66''\<rparr>"
proof -
  have l: "listUTUN pinned_world = Some ([''utun0''], [])"
    by (simp add: world_eval2)
  have r: "readPID pinned_world = (4242, True)" "processAlive 4242 pinned_world"
    by (simp_all add: world_eval2)
  have p: "pickReady [''utun0''] [] (8 * Second) (tun_name pinned_world) pinned_world =
             (Inr ''utun0'', pinned_world)"
    by (simp add: world_eval2)
  from EnsureRunning_owned[OF l r, of cfg_defaults "8 * Second"] p
  have a: "EnsureRunning cfg_defaults (8 * Second) pinned_world =
       (Inr \<lparr>Running = True, PID = 4242, OwnedByUs = True, AdoptedExternal = False,
             NewUTUN = ''utun0''\<rparr>, pinned_world)"
    by simp
  have t: "tun_name pinned_world = ''utun66''" "tun_name starting_world = ''utun66''"
    by (simp_all add: world_eval2)
  have sl: "listUTUN starting_world = Some ([''utun0''], [])"
    by (simp add: world_eval2)
  have sr: "\<not> (snd (readPID starting_world)
               \<and> processAlive (fst (readPID starting_world)) starting_world)"
    "\<not> (boolVal (SingBoxAdoptExternal cfg_defaults) True
          \<and> snd (findExternalSingBoxPID starting_world))"
    by (simp_all add: world_eval2)
  have sw: "waitForUTUNReady (Some [''utun0'']) (Some []) (8 * Second) ''utun66''
              (recorded 4242 starting_world)
            = (Inr ''utun66'', (recorded 4242 starting_world)\<lparr>now := 600 * Millisecond\<rparr>)"
    by (simp add: waitForUTUNReady_def waitPreferred.simps recorded_def started_def world_eval2)
  have sp: "spawn starting_world (now starting_world) = Some 4242"
    "pidfile_writable starting_world"
    by (simp_all add: world_eval2)
  from EnsureRunning_start_cases[of starting_world "[''utun0'']" "[]" "8 * Second" "''utun66''"]
    sp sw
  have "fst (EnsureRunning_start [''utun0''] [] (8 * Second) ''utun66'' starting_world) =
          Inr \<lparr>Running = True, PID = 4242, OwnedByUs = True, AdoptedExternal = False,
               NewUTUN = ''utun66''\<rparr>"
    by auto
  with EnsureRunning_starts[OF sl sr, of "8 * Second"] t(2)
  have b: "fst (EnsureRunning cfg_defaults (8 * Second) starting_world) =
       Inr \<lparr>Running = True, PID = 4242, OwnedByUs = True, AdoptedExternal = False,
            NewUTUN = ''utun66''\<rparr>"
    by simp
  from a b t show ?thesis by simp
qed

section \<open>Interfaces that existed before\<close>

text \<open>
  Claim C7 fails on the code. In a world with two tunnels of other subsystems, both
  with IPv4 before and after, and with the snapshot that \<open>listUTUN\<close> takes of this very
  world, \<open>waitForUTUNReady\<close> without a preferred name returns \<open>utun0\<close> at its first poll:
  an interface that is not new, had IPv4 before, and is not the only candidate. The
  statement after the comment "If only one tunnel exists, this is still good enough"
  returns without testing how many tunnels exist.
\<close>

theorem waitForUTUNReady_returns_preexisting_ready:
  "listUTUN busy_world = Some ([''utun0'', ''utun1''], [])
   \<and> waitForUTUNReady (Some [''utun0'', ''utun1'']) (Some []) (8 * Second) [] busy_world
       = (Inr ''utun0'', busy_world)"
  by (simp add: waitForUTUNReady_def waitAny_step world_eval2)

section \<open>Cleaning up after a start that brings up no interface\<close>

lemma stopPID_alive_iff:
  "processAlive pid (snd (stopPID pid w)) \<longleftrightarrow>
     processAlive pid w \<and> pid \<notin> exits_on_term w \<and> pid \<notin> exits_on_kill w"
proof
  assume a: "processAlive pid (snd (stopPID pid w))"
  then have "1 < pid" "pid \<in> alive (snd (stopPID pid w))"
    by (simp_all add: processAlive_def split: if_splits)
  with stopPID_frame(4)[of pid w] have "processAlive pid w"
    by (auto simp: processAlive_def)
  moreover from a stopPID_obeys[of pid w]
  have "pid \<notin> exits_on_term w \<and> pid \<notin> exits_on_kill w" by blast
  ultimately show "processAlive pid w \<and> pid \<notin> exits_on_term w \<and> pid \<notin> exits_on_kill w"
    by simp
next
  assume "processAlive pid w \<and> pid \<notin> exits_on_term w \<and> pid \<notin> exits_on_kill w"
  then show "processAlive pid (snd (stopPID pid w))" by (simp add: stopPID_stubborn)
qed

lemma Kill_term_alive:
  "processAlive pid (Kill pid SIGTERM (Kill (- pid) SIGTERM w)) \<longleftrightarrow>
     processAlive pid w \<and> pid \<notin> exits_on_term w"
  by (auto simp: processAlive_def Kill_alive Kill_fields)

lemma EnsureRunning_StartedNoUtun:
  assumes "fst (EnsureRunning cfg timeout w) = Inl (StartedNoUtun err)"
  shows "\<exists>bs bn n w3. listUTUN w = Some (bs, bn) \<and> spawn w (now w) = Some n
           \<and> pidfile_writable w
           \<and> waitForUTUNReady (Some bs) (Some bn) timeout (tun_name w) (recorded n w)
               = (Inl err, w3)
           \<and> snd (EnsureRunning cfg timeout w) = removePidFile (snd (stopPID (int n) w3))"
proof -
  from EnsureRunning_cases[of w cfg timeout]
  consider
    (fails) "EnsureRunning cfg timeout w = (Inl ListUtunBefore, w)"
  | (owned) bs bn where
      "EnsureRunning cfg timeout w =
         (case pickReady bs bn timeout (tun_name w) w of
            (Inl err, w') \<Rightarrow> (Inl (OwnedNoUtun err), w')
          | (Inr utun, w') \<Rightarrow>
              (Inr \<lparr>Running = True, PID = fst (readPID w), OwnedByUs = True,
                    AdoptedExternal = False, NewUTUN = utun\<rparr>, w'))"
  | (adopted) bs bn epid where
      "EnsureRunning cfg timeout w =
         (case pickReady bs bn timeout (tun_name w) w of
            (Inl err, w') \<Rightarrow> (Inl (AdoptedNoUtun epid err), w')
          | (Inr utun, w') \<Rightarrow>
              (Inr \<lparr>Running = True, PID = epid, OwnedByUs = False,
                    AdoptedExternal = False, NewUTUN = utun\<rparr>, w'))"
  | (start) bs bn where "listUTUN w = Some (bs, bn)"
      "EnsureRunning cfg timeout w = EnsureRunning_start bs bn timeout (tun_name w) w"
    by blast
  then show ?thesis
  proof cases
    case fails
    with assms show ?thesis by simp
  next
    case (owned bs bn)
    with assms show ?thesis
      by (cases "pickReady bs bn timeout (tun_name w) w") (auto split: sum.splits)
  next
    case (adopted bs bn epid)
    with assms show ?thesis
      by (cases "pickReady bs bn timeout (tun_name w) w") (auto split: sum.splits)
  next
    case (start bs bn)
    from EnsureRunning_start_cases[of w bs bn timeout "tun_name w"] assms start
    show ?thesis by auto
  qed
qed

lemma EnsureRunning_start_fails_wait:
  assumes "listUTUN w = Some (bs, bn)"
    and "\<not> (snd (readPID w) \<and> processAlive (fst (readPID w)) w)"
    and "\<not> (boolVal (SingBoxAdoptExternal cfg) True \<and> snd (findExternalSingBoxPID w))"
    and "spawn w (now w) = Some n" and "pidfile_writable w"
    and "fst (waitForUTUNReady (Some bs) (Some bn) timeout (tun_name w) (recorded n w)) = Inl err"
  shows "EnsureRunning cfg timeout w =
           (Inl (StartedNoUtun err),
            removePidFile (snd (stopPID (int n)
              (snd (waitForUTUNReady (Some bs) (Some bn) timeout (tun_name w) (recorded n w))))))"
proof -
  from EnsureRunning_start_cases[of w bs bn timeout "tun_name w"] assms(4,5,6)
  have "EnsureRunning_start bs bn timeout (tun_name w) w =
           (Inl (StartedNoUtun err),
            removePidFile (snd (stopPID (int n)
              (snd (waitForUTUNReady (Some bs) (Some bn) timeout (tun_name w) (recorded n w))))))"
    by auto
  with EnsureRunning_starts[OF assms(1,2,3)] show ?thesis by simp
qed

text \<open>
  The world after the clean-up \<open>_ = stopPID(pid); _ = os.Remove(pidfile)\<close> of a process
  \<open>m\<close> that was started and recorded in \<open>w\<close>, the wait for the interface having only let
  time pass.
\<close>

lemma start_failure_state:
  assumes c: "clock_only (recorded m w) w3"
  shows "drop (length (signals w)) (signals (removePidFile (snd (stopPID (int m) w3)))) =
           [(- int m, SIGTERM), (int m, SIGTERM)] @
           (if 1 < int m \<and> int m \<notin> exits_on_term w
            then [(- int m, SIGKILL), (int m, SIGKILL)] else [])"
    and "processAlive (int m) (removePidFile (snd (stopPID (int m) w3))) \<longleftrightarrow>
           1 < int m \<and> int m \<notin> exits_on_term w \<and> int m \<notin> exits_on_kill w"
    and "pidfile (removePidFile (snd (stopPID (int m) w3))) =
           (if pidfile_removable w then NoFile else PidText (int m))"
proof -
  have f: "signals w3 = signals w" "alive w3 = insert (int m) (alive w)"
    "exits_on_term w3 = exits_on_term w" "exits_on_kill w3 = exits_on_kill w"
    "pidfile w3 = PidText (int m)" "pidfile_removable w3 = pidfile_removable w"
    using clock_only_fields[OF c] by (simp_all add: recorded_fields)
  have a3: "processAlive (int m) w3 \<longleftrightarrow> 1 < int m"
    by (simp add: processAlive_def f)
  have t: "processAlive (int m) (Kill (int m) SIGTERM (Kill (- int m) SIGTERM w3)) \<longleftrightarrow>
             1 < int m \<and> int m \<notin> exits_on_term w"
    by (simp only: Kill_term_alive a3 f)
  have "signals (snd (stopPID (int m) w3)) =
          signals w @ [(- int m, SIGTERM), (int m, SIGTERM)] @
          (if 1 < int m \<and> int m \<notin> exits_on_term w
           then [(- int m, SIGKILL), (int m, SIGKILL)] else [])"
    by (simp only: stopPID_signals t f)
  then show "drop (length (signals w)) (signals (removePidFile (snd (stopPID (int m) w3)))) =
           [(- int m, SIGTERM), (int m, SIGTERM)] @
           (if 1 < int m \<and> int m \<notin> exits_on_term w
            then [(- int m, SIGKILL), (int m, SIGKILL)] else [])"
    by (simp add: removePidFile_fields)
  have "processAlive (int m) (snd (stopPID (int m) w3)) \<longleftrightarrow>
          1 < int m \<and> int m \<notin> exits_on_term w \<and> int m \<notin> exits_on_kill w"
    by (simp only: stopPID_alive_iff a3 f)
  then show "processAlive (int m) (removePidFile (snd (stopPID (int m) w3))) \<longleftrightarrow>
           1 < int m \<and> int m \<notin> exits_on_term w \<and> int m \<notin> exits_on_kill w"
    by (simp add: removePidFile_fields)
  have "pidfile_removable (snd (stopPID (int m) w3)) = pidfile_removable w"
    using stopPID_frame(3)[of w3 "int m"] by (simp add: same_env_def f)
  then show "pidfile (removePidFile (snd (stopPID (int m) w3))) =
           (if pidfile_removable w then NoFile else PidText (int m))"
    by (simp add: removePidFile_fields stopPID_frame f)
qed

lemma EnsureRunning_start_failure:
  assumes "listUTUN w = Some (bs, bn)"
    and "\<not> (snd (readPID w) \<and> processAlive (fst (readPID w)) w)"
    and "\<not> (boolVal (SingBoxAdoptExternal cfg) True \<and> snd (findExternalSingBoxPID w))"
    and "spawn w (now w) = Some n" and "pidfile_writable w"
    and "fst (waitForUTUNReady (Some bs) (Some bn) timeout (tun_name w) (recorded n w)) = Inl err"
  shows "fst (EnsureRunning cfg timeout w) = Inl (StartedNoUtun err)"
    and "drop (length (signals w)) (signals (snd (EnsureRunning cfg timeout w))) =
           [(- int n, SIGTERM), (int n, SIGTERM)] @
           (if 1 < int n \<and> int n \<notin> exits_on_term w
            then [(- int n, SIGKILL), (int n, SIGKILL)] else [])"
    and "processAlive (int n) (snd (EnsureRunning cfg timeout w)) \<longleftrightarrow>
           1 < int n \<and> int n \<notin> exits_on_term w \<and> int n \<notin> exits_on_kill w"
    and "pidfile (snd (EnsureRunning cfg timeout w)) =
           (if pidfile_removable w then NoFile else PidText (int n))"
proof -
  let ?w3 = "snd (waitForUTUNReady (Some bs) (Some bn) timeout (tun_name w) (recorded n w))"
  have e: "EnsureRunning cfg timeout w =
             (Inl (StartedNoUtun err), removePidFile (snd (stopPID (int n) ?w3)))"
    using assms by (rule EnsureRunning_start_fails_wait)
  have c: "clock_only (recorded n w) ?w3" by (rule waitForUTUNReady_clock)
  from e show "fst (EnsureRunning cfg timeout w) = Inl (StartedNoUtun err)" by simp
  from e start_failure_state(1)[OF c]
  show "drop (length (signals w)) (signals (snd (EnsureRunning cfg timeout w))) =
           [(- int n, SIGTERM), (int n, SIGTERM)] @
           (if 1 < int n \<and> int n \<notin> exits_on_term w
            then [(- int n, SIGKILL), (int n, SIGKILL)] else [])"
    by simp
  from e start_failure_state(2)[OF c]
  show "processAlive (int n) (snd (EnsureRunning cfg timeout w)) \<longleftrightarrow>
           1 < int n \<and> int n \<notin> exits_on_term w \<and> int n \<notin> exits_on_kill w"
    by simp
  from e start_failure_state(3)[OF c]
  show "pidfile (snd (EnsureRunning cfg timeout w)) =
           (if pidfile_removable w then NoFile else PidText (int n))"
    by simp
qed

text \<open>
  Claim C8, as amended. When \<open>EnsureRunning\<close> has started a process and recorded it,
  and no interface becomes ready before the deadline, it returns the error "sing-box
  started but no utun appeared before timeout". Before that it has sent the
  just-started process \<open>SIGTERM\<close> (to its group and to itself) and, if the process was
  still alive after the grace period, \<open>SIGKILL\<close> (the same way), and nothing else; in the
  model a process that does not end on \<open>SIGTERM\<close> is alive throughout the grace period.
  Then it has asked for the removal of the pid file. The outcomes of the stop and of
  the removal are both discarded. So, when the call returns, the process is still
  running exactly when it ends on neither signal, and the ownership record is gone
  exactly when the removal succeeded: otherwise it still names the process.
\<close>

theorem start_failure_cleanup:
  "(listUTUN w = Some (bs, bn)
      \<and> \<not> (snd (readPID w) \<and> processAlive (fst (readPID w)) w)
      \<and> \<not> (boolVal (SingBoxAdoptExternal cfg) True \<and> snd (findExternalSingBoxPID w))
      \<and> spawn w (now w) = Some n \<and> pidfile_writable w
      \<and> fst (waitForUTUNReady (Some bs) (Some bn) timeout (tun_name w) (recorded n w))
          = Inl err \<longrightarrow>
    fst (EnsureRunning cfg timeout w) = Inl (StartedNoUtun err))
   \<and> (fst (EnsureRunning cfg timeout w) = Inl (StartedNoUtun err) \<longrightarrow>
       (\<exists>m. spawn w (now w) = Some m
          \<and> drop (length (signals w)) (signals (snd (EnsureRunning cfg timeout w))) =
              [(- int m, SIGTERM), (int m, SIGTERM)] @
              (if 1 < int m \<and> int m \<notin> exits_on_term w
               then [(- int m, SIGKILL), (int m, SIGKILL)] else [])
          \<and> (processAlive (int m) (snd (EnsureRunning cfg timeout w)) \<longleftrightarrow>
               1 < int m \<and> int m \<notin> exits_on_term w \<and> int m \<notin> exits_on_kill w)
          \<and> pidfile (snd (EnsureRunning cfg timeout w)) =
              (if pidfile_removable w then NoFile else PidText (int m))
          \<and> readPID (snd (EnsureRunning cfg timeout w)) =
              (if pidfile_removable w \<or> int m \<le> 1 then (0, False) else (int m, True))))"
proof (intro conjI impI)
  assume "listUTUN w = Some (bs, bn)
      \<and> \<not> (snd (readPID w) \<and> processAlive (fst (readPID w)) w)
      \<and> \<not> (boolVal (SingBoxAdoptExternal cfg) True \<and> snd (findExternalSingBoxPID w))
      \<and> spawn w (now w) = Some n \<and> pidfile_writable w
      \<and> fst (waitForUTUNReady (Some bs) (Some bn) timeout (tun_name w) (recorded n w))
          = Inl err"
  then show "fst (EnsureRunning cfg timeout w) = Inl (StartedNoUtun err)"
    by (simp add: EnsureRunning_start_fails_wait)
next
  assume "fst (EnsureRunning cfg timeout w) = Inl (StartedNoUtun err)"
  from EnsureRunning_StartedNoUtun[OF this] obtain bs' bn' m w3 where
    sp: "spawn w (now w) = Some m" and
    wt: "waitForUTUNReady (Some bs') (Some bn') timeout (tun_name w) (recorded m w)
           = (Inl err, w3)" and
    e: "snd (EnsureRunning cfg timeout w) = removePidFile (snd (stopPID (int m) w3))"
    by blast
  from wt have "w3 = snd (waitForUTUNReady (Some bs') (Some bn') timeout (tun_name w)
                            (recorded m w))"
    by simp
  then have c: "clock_only (recorded m w) w3" by (simp add: waitForUTUNReady_clock)
  let ?w' = "snd (EnsureRunning cfg timeout w)"
  have 1: "drop (length (signals w)) (signals ?w') =
              [(- int m, SIGTERM), (int m, SIGTERM)] @
              (if 1 < int m \<and> int m \<notin> exits_on_term w
               then [(- int m, SIGKILL), (int m, SIGKILL)] else [])"
    using start_failure_state(1)[OF c] by (simp only: e)
  have 2: "processAlive (int m) ?w' \<longleftrightarrow>
               1 < int m \<and> int m \<notin> exits_on_term w \<and> int m \<notin> exits_on_kill w"
    using start_failure_state(2)[OF c] by (simp only: e)
  have 3: "pidfile ?w' = (if pidfile_removable w then NoFile else PidText (int m))"
    using start_failure_state(3)[OF c] by (simp only: e)
  then have 4: "readPID ?w' =
              (if pidfile_removable w \<or> int m \<le> 1 then (0, False) else (int m, True))"
    by (simp add: readPID_def)
  from sp 1 2 3 4
  show "\<exists>m. spawn w (now w) = Some m
          \<and> drop (length (signals w)) (signals (snd (EnsureRunning cfg timeout w))) =
              [(- int m, SIGTERM), (int m, SIGTERM)] @
              (if 1 < int m \<and> int m \<notin> exits_on_term w
               then [(- int m, SIGKILL), (int m, SIGKILL)] else [])
          \<and> (processAlive (int m) (snd (EnsureRunning cfg timeout w)) \<longleftrightarrow>
               1 < int m \<and> int m \<notin> exits_on_term w \<and> int m \<notin> exits_on_kill w)
          \<and> pidfile (snd (EnsureRunning cfg timeout w)) =
              (if pidfile_removable w then NoFile else PidText (int m))
          \<and> readPID (snd (EnsureRunning cfg timeout w)) =
              (if pidfile_removable w \<or> int m \<le> 1 then (0, False) else (int m, True))"
    by blast
qed

text \<open>Worlds in which sing-box is started and no interface ever appears.\<close>

lemma no_interface_wait:
  assumes "interfaces w = (\<lambda>t. Some [])" and "tun_name w = []"
  shows "fst (waitForUTUNReady b bn timeout (tun_name w) (recorded n w)) =
           Inl (NoUtunWithin timeout)"
proof -
  have "fst (waitAny b bn timeout (now (recorded n w) + timeout) (recorded n w)) =
          Inl (NoUtunWithin timeout)"
    by (rule waitAny_never) (simp add: findUTUNWithIPv4_def recorded_def started_def assms)
  with assms(2) show ?thesis by (simp add: waitForUTUNReady_def Let_def)
qed

lemma cfg_defaults_adopt: "boolVal (SingBoxAdoptExternal cfg_defaults) True"
  by (simp add: cfg_defaults_def cfg_file_def applyDefaults_def boolVal_def)

lemma hung_world_reads:
  "listUTUN hung_world = Some ([], [])" "readPID hung_world = (0, False)"
  "findExternalSingBoxPID hung_world = (0, False)" "spawn hung_world (now hung_world) = Some 4242"
  "pidfile_writable hung_world" "interfaces hung_world = (\<lambda>t. Some [])"
  "tun_name hung_world = []" "exits_on_term hung_world = {}" "exits_on_kill hung_world = {}"
  "pidfile_removable hung_world" "signals hung_world = []"
  by (simp_all add: hung_world_def quiet_world_def listUTUN_def readPID_def
        findExternalSingBoxPID_def)

lemma failing_world_reads:
  "listUTUN failing_world = Some ([], [])" "readPID failing_world = (0, False)"
  "findExternalSingBoxPID failing_world = (0, False)"
  "spawn failing_world (now failing_world) = Some 4242"
  "pidfile_writable failing_world" "interfaces failing_world = (\<lambda>t. Some [])"
  "tun_name failing_world = []" "exits_on_term failing_world = {}"
  "exits_on_kill failing_world = {4242}"
  "pidfile_removable failing_world" "signals failing_world = []"
  by (simp_all add: failing_world_def quiet_world_def listUTUN_def readPID_def
        findExternalSingBoxPID_def)

lemma locked_world_reads:
  "listUTUN locked_world = Some ([], [])" "readPID locked_world = (0, False)"
  "findExternalSingBoxPID locked_world = (0, False)"
  "spawn locked_world (now locked_world) = Some 4242"
  "pidfile_writable locked_world" "interfaces locked_world = (\<lambda>t. Some [])"
  "tun_name locked_world = []" "exits_on_term locked_world = {}"
  "exits_on_kill locked_world = {4242}"
  "\<not> pidfile_removable locked_world" "signals locked_world = []"
  by (simp_all add: locked_world_def failing_world_def quiet_world_def listUTUN_def
        readPID_def findExternalSingBoxPID_def)

text \<open>
  The theorem at a world in which the started process (4242) brings up no interface
  and ends on \<open>SIGKILL\<close>, and the pid file can be removed: the call returns the error,
  having sent both signals; the process and the record are gone.
\<close>

theorem start_failure_cleanup_witness:
  "listUTUN failing_world = Some ([], [])
   \<and> \<not> (snd (readPID failing_world) \<and> processAlive (fst (readPID failing_world)) failing_world)
   \<and> \<not> (boolVal (SingBoxAdoptExternal cfg_defaults) True
          \<and> snd (findExternalSingBoxPID failing_world))
   \<and> spawn failing_world (now failing_world) = Some 4242 \<and> pidfile_writable failing_world
   \<and> fst (waitForUTUNReady (Some []) (Some []) (8 * Second) (tun_name failing_world)
            (recorded 4242 failing_world)) = Inl (NoUtunWithin (8 * Second))
   \<and> fst (EnsureRunning cfg_defaults (8 * Second) failing_world)
       = Inl (StartedNoUtun (NoUtunWithin (8 * Second)))
   \<and> signals (snd (EnsureRunning cfg_defaults (8 * Second) failing_world))
       = [(- 4242, SIGTERM), (4242, SIGTERM), (- 4242, SIGKILL), (4242, SIGKILL)]
   \<and> pidfile (snd (EnsureRunning cfg_defaults (8 * Second) failing_world)) = NoFile
   \<and> \<not> processAlive 4242 (snd (EnsureRunning cfg_defaults (8 * Second) failing_world))"
proof -
  let ?w' = "snd (EnsureRunning cfg_defaults (8 * Second) failing_world)"
  note inst = start_failure_cleanup
      [of failing_world "[]" "[]" cfg_defaults 4242 "8 * Second" "NoUtunWithin (8 * Second)"]
  have h: "listUTUN failing_world = Some ([], [])"
    "\<not> (snd (readPID failing_world) \<and> processAlive (fst (readPID failing_world)) failing_world)"
    "\<not> (boolVal (SingBoxAdoptExternal cfg_defaults) True
          \<and> snd (findExternalSingBoxPID failing_world))"
    "spawn failing_world (now failing_world) = Some 4242" "pidfile_writable failing_world"
    by (simp_all add: failing_world_reads)
  have wt: "fst (waitForUTUNReady (Some []) (Some []) (8 * Second) (tun_name failing_world)
            (recorded 4242 failing_world)) = Inl (NoUtunWithin (8 * Second))"
    by (rule no_interface_wait) (simp_all add: failing_world_reads)
  from inst h wt
  have err: "fst (EnsureRunning cfg_defaults (8 * Second) failing_world)
               = Inl (StartedNoUtun (NoUtunWithin (8 * Second)))"
    by blast
  with inst obtain m where
    m: "spawn failing_world (now failing_world) = Some m"
    "drop (length (signals failing_world)) (signals ?w') =
       [(- int m, SIGTERM), (int m, SIGTERM)] @
       (if 1 < int m \<and> int m \<notin> exits_on_term failing_world
        then [(- int m, SIGKILL), (int m, SIGKILL)] else [])"
    "processAlive (int m) ?w' \<longleftrightarrow>
       1 < int m \<and> int m \<notin> exits_on_term failing_world \<and> int m \<notin> exits_on_kill failing_world"
    "pidfile ?w' = (if pidfile_removable failing_world then NoFile else PidText (int m))"
    by blast
  from m(1) h(4) have "m = 4242" by simp
  with m have "signals ?w' = [(- 4242, SIGTERM), (4242, SIGTERM), (- 4242, SIGKILL), (4242, SIGKILL)]"
    "pidfile ?w' = NoFile" "\<not> processAlive 4242 ?w'"
    by (simp_all add: failing_world_reads)
  with h wt err show ?thesis by simp
qed

text \<open>
  Claim C8 as stated has the just-started process stopped and its record removed. In a
  world in which that process (4242) survives \<open>SIGTERM\<close> and \<open>SIGKILL\<close>, \<open>stopPID\<close> fails,
  its error is discarded and the record is removed: the call returns its error with
  the process still running and no record of it. In a world in which the process ends
  on \<open>SIGKILL\<close> and the pid file cannot be removed, the call returns its error with the
  process gone and the record still naming it.
\<close>

theorem start_failure_leaves_process_counterexample:
  "fst (EnsureRunning cfg_defaults (8 * Second) hung_world)
     = Inl (StartedNoUtun (NoUtunWithin (8 * Second)))
   \<and> pidfile (snd (EnsureRunning cfg_defaults (8 * Second) hung_world)) = NoFile
   \<and> processAlive 4242 (snd (EnsureRunning cfg_defaults (8 * Second) hung_world))
   \<and> fst (EnsureRunning cfg_defaults (8 * Second) locked_world)
       = Inl (StartedNoUtun (NoUtunWithin (8 * Second)))
   \<and> pidfile (snd (EnsureRunning cfg_defaults (8 * Second) locked_world)) = PidText 4242
   \<and> \<not> processAlive 4242 (snd (EnsureRunning cfg_defaults (8 * Second) locked_world))"
proof -
  have hw: "fst (waitForUTUNReady (Some []) (Some []) (8 * Second) (tun_name hung_world)
            (recorded 4242 hung_world)) = Inl (NoUtunWithin (8 * Second))"
    by (rule no_interface_wait) (simp_all add: hung_world_reads)
  have h1: "listUTUN hung_world = Some ([], [])"
    and h2: "\<not> (snd (readPID hung_world) \<and> processAlive (fst (readPID hung_world)) hung_world)"
    and h3: "\<not> (boolVal (SingBoxAdoptExternal cfg_defaults) True
          \<and> snd (findExternalSingBoxPID hung_world))"
    and h4: "spawn hung_world (now hung_world) = Some 4242"
    and h5: "pidfile_writable hung_world"
    by (simp_all add: hung_world_reads)
  note hf = EnsureRunning_start_failure[OF h1 h2 h3 h4 h5 hw]
  have a: "fst (EnsureRunning cfg_defaults (8 * Second) hung_world)
             = Inl (StartedNoUtun (NoUtunWithin (8 * Second)))"
    "pidfile (snd (EnsureRunning cfg_defaults (8 * Second) hung_world)) = NoFile"
    "processAlive 4242 (snd (EnsureRunning cfg_defaults (8 * Second) hung_world))"
    using hf(1) hf(3) hf(4) by (simp_all add: hung_world_reads)
  have lw: "fst (waitForUTUNReady (Some []) (Some []) (8 * Second) (tun_name locked_world)
            (recorded 4242 locked_world)) = Inl (NoUtunWithin (8 * Second))"
    by (rule no_interface_wait) (simp_all add: locked_world_reads)
  have l1: "listUTUN locked_world = Some ([], [])"
    and l2: "\<not> (snd (readPID locked_world)
                  \<and> processAlive (fst (readPID locked_world)) locked_world)"
    and l3: "\<not> (boolVal (SingBoxAdoptExternal cfg_defaults) True
          \<and> snd (findExternalSingBoxPID locked_world))"
    and l4: "spawn locked_world (now locked_world) = Some 4242"
    and l5: "pidfile_writable locked_world"
    by (simp_all add: locked_world_reads)
  note lf = EnsureRunning_start_failure[OF l1 l2 l3 l4 l5 lw]
  have b: "fst (EnsureRunning cfg_defaults (8 * Second) locked_world)
             = Inl (StartedNoUtun (NoUtunWithin (8 * Second)))"
    "pidfile (snd (EnsureRunning cfg_defaults (8 * Second) locked_world)) = PidText 4242"
    "\<not> processAlive 4242 (snd (EnsureRunning cfg_defaults (8 * Second) locked_world))"
    using lf(1) lf(3) lf(4) by (simp_all add: locked_world_reads)
  from a b show ?thesis by simp
qed

section \<open>Who is sent a signal\<close>

lemma sends_refl: "sends S w w"
  by (simp add: sends_def)

lemma sends_same: "signals w' = signals w \<Longrightarrow> sends S w w'"
  by (simp add: sends_def)

lemma sends_trans: "sends S w w' \<Longrightarrow> sends S w' w'' \<Longrightarrow> sends S w w''"
proof -
  assume "sends S w w'" and "sends S w' w''"
  then obtain a b where a: "signals w' = signals w @ a" "list_all (\<lambda>s. \<bar>fst s\<bar> \<in> S) a"
    and b: "signals w'' = signals w' @ b" "list_all (\<lambda>s. \<bar>fst s\<bar> \<in> S) b"
    unfolding sends_def by blast
  then have "signals w'' = signals w @ (a @ b)" "list_all (\<lambda>s. \<bar>fst s\<bar> \<in> S) (a @ b)"
    by simp_all
  then show ?thesis unfolding sends_def by blast
qed

lemma sends_mono: "sends S w w' \<Longrightarrow> S \<subseteq> T \<Longrightarrow> sends T w w'"
proof -
  assume "sends S w w'" and sub: "S \<subseteq> T"
  then obtain a where a: "signals w' = signals w @ a" "list_all (\<lambda>s. \<bar>fst s\<bar> \<in> S) a"
    unfolding sends_def by blast
  from a(2) sub have "list_all (\<lambda>s. \<bar>fst s\<bar> \<in> T) a" by (auto simp: list_all_iff)
  with a(1) show ?thesis unfolding sends_def by blast
qed

lemma sends_signaled: "sends S w w' \<Longrightarrow> signaled w w' \<subseteq> S"
proof -
  assume "sends S w w'"
  then obtain a where a: "signals w' = signals w @ a" "list_all (\<lambda>s. \<bar>fst s\<bar> \<in> S) a"
    unfolding sends_def by blast
  then show ?thesis by (auto simp: signaled_def list_all_iff)
qed

lemma sends_prefix: "sends S w w' \<Longrightarrow> take (length (signals w)) (signals w') = signals w"
  by (auto simp: sends_def)

lemma clock_only_sends: "clock_only w w' \<Longrightarrow> sends S w w'"
  using clock_only_fields(11)[of w w'] by (simp add: sends_same)

lemma stopPID_sends: "sends {\<bar>pid\<bar>} w (snd (stopPID pid w))"
  by (simp add: sends_def stopPID_signals)

lemma owned_pid: "snd (readPID w) \<Longrightarrow> owned w = {fst (readPID w)} \<and> 1 < fst (readPID w)"
  by (auto simp: owned_def readPID_def split: pidfile_content.splits if_splits)

lemma StopIfOwned_sends: "sends (owned w) w (snd (StopIfOwned w))"
proof -
  have s: "sends (owned w) w (snd (stopPID (fst (readPID w)) w))" if "snd (readPID w)"
  proof -
    from owned_pid[OF that] have "{\<bar>fst (readPID w)\<bar>} = owned w" by simp
    with stopPID_sends[of "fst (readPID w)" w] show ?thesis by simp
  qed
  have r: "sends (owned w) w (removePidFile w')" if "sends (owned w) w w'" for w'
    using that by (simp add: sends_def removePidFile_fields)
  from StopIfOwned_cases[of w] s r show ?thesis
    by (elim disjE conjE) (simp_all add: sends_refl)
qed

lemma owned_removePidFile: "owned (removePidFile w) \<subseteq> owned w"
  by (simp add: removePidFile_fields)

lemma StopIfOwned_frame:
  "same_env w (snd (StopIfOwned w))" "owned (snd (StopIfOwned w)) \<subseteq> owned w"
  "alive (snd (StopIfOwned w)) \<subseteq> alive w"
  "pf_apply_calls (snd (StopIfOwned w)) = pf_apply_calls w"
  "started_pids (snd (StopIfOwned w)) = started_pids w"
proof -
  let ?pid = "fst (readPID w)"
  have e: "same_env w (removePidFile (snd (stopPID ?pid w)))"
    using stopPID_frame(3)[of w ?pid] removePidFile_fields(6)[of "snd (stopPID ?pid w)"]
    by (rule same_env_trans)
  have o: "owned (snd (stopPID ?pid w)) = owned w"
    by (simp add: owned_def readPID_def stopPID_frame)
  have o': "owned (removePidFile (snd (stopPID ?pid w))) \<subseteq> owned w"
    using owned_removePidFile[of "snd (stopPID ?pid w)"] o by simp
  from StopIfOwned_cases[of w] e o o' owned_removePidFile[of w]
  have "same_env w (snd (StopIfOwned w)) \<and> owned (snd (StopIfOwned w)) \<subseteq> owned w
        \<and> alive (snd (StopIfOwned w)) \<subseteq> alive w
        \<and> pf_apply_calls (snd (StopIfOwned w)) = pf_apply_calls w
        \<and> started_pids (snd (StopIfOwned w)) = started_pids w"
    by (elim disjE conjE)
       (simp_all add: same_env_refl removePidFile_fields(2-7,10) stopPID_frame)
  then show "same_env w (snd (StopIfOwned w))" "owned (snd (StopIfOwned w)) \<subseteq> owned w"
    "alive (snd (StopIfOwned w)) \<subseteq> alive w"
    "pf_apply_calls (snd (StopIfOwned w)) = pf_apply_calls w"
    "started_pids (snd (StopIfOwned w)) = started_pids w"
    by simp_all
qed

lemma StopOwned_loop_sends: "sends {\<bar>pid\<bar>} w (snd (StopOwned_loop pid sel w))"
proof (induction pid sel w rule: StopOwned_loop.induct)
  case (1 pid sel w)
  show ?case
  proof (cases "processAlive pid w")
    case False
    then show ?thesis by (simp add: sends_def removePidFile_fields)
  next
    case True
    show ?thesis
    proof (cases sel)
      case Nil
      with True show ?thesis
        by (simp add: Let_def sends_def removePidFile_fields Sleep_fields Kill_fields)
    next
      case (Cons c rest)
      with True "1.IH" show ?thesis
        by (cases c)
           (simp_all add: Let_def sends_def removePidFile_fields Sleep_fields Kill_fields)
    qed
  qed
qed

lemma StopOwned_sends: "sends (owned w) w (snd (StopOwned sel w))"
proof (cases "snd (readPID w)")
  case False
  then show ?thesis by (cases "readPID w") (simp add: StopOwned_def sends_refl)
next
  case True
  from owned_pid[OF True] have o: "{\<bar>fst (readPID w)\<bar>} = owned w" by simp
  show ?thesis
  proof (cases "processAlive (fst (readPID w)) w")
    case False
    with True show ?thesis
      by (cases "readPID w") (simp add: StopOwned_def sends_def removePidFile_fields)
  next
    case alive: True
    let ?pid = "fst (readPID w)"
    have "sends (owned w) w (Kill ?pid SIGTERM w)"
      using o by (auto simp: sends_def Kill_fields)
    moreover have "sends (owned w) (Kill ?pid SIGTERM w)
                     (snd (StopOwned_loop ?pid sel (Kill ?pid SIGTERM w)))"
      using StopOwned_loop_sends[of ?pid "Kill ?pid SIGTERM w" sel] o by simp
    ultimately have "sends (owned w) w (snd (StopOwned_loop ?pid sel (Kill ?pid SIGTERM w)))"
      by (rule sends_trans)
    with True alive show ?thesis by (cases "readPID w") (simp add: StopOwned_def)
  qed
qed

text \<open>The log of the processes started.\<close>

lemma started_since_same: "started_pids w' = started_pids w \<Longrightarrow> started_since w w' = {}"
  by (simp add: started_since_def)

lemma started_since_append:
  "started_pids w' = started_pids w @ ns \<Longrightarrow> started_since w w' = set ns"
  by (simp add: started_since_def)

lemma started_since_trans:
  assumes "take (length (started_pids w)) (started_pids w') = started_pids w"
    and "take (length (started_pids w')) (started_pids w'') = started_pids w'"
  shows "started_since w w'' = started_since w w' \<union> started_since w' w''"
    and "take (length (started_pids w)) (started_pids w'') = started_pids w"
proof -
  from assms(1) have "started_pids w' = started_pids w @ drop (length (started_pids w)) (started_pids w')"
    by (metis append_take_drop_id)
  then obtain a where a: "started_pids w' = started_pids w @ a" ..
  from assms(2) have "started_pids w'' = started_pids w' @ drop (length (started_pids w')) (started_pids w'')"
    by (metis append_take_drop_id)
  then obtain b where b: "started_pids w'' = started_pids w' @ b" ..
  from a b show "started_since w w'' = started_since w w' \<union> started_since w' w''"
    by (simp add: started_since_def)
  from a b show "take (length (started_pids w)) (started_pids w'') = started_pids w"
    by simp
qed

lemma starting_set:
  "set (case spawn w (now w) of None \<Rightarrow> [] | Some n \<Rightarrow> [int n]) = starting w"
  by (simp add: starting_def split: option.splits)

text \<open>What \<open>EnsureRunning\<close> does to the world, branch by branch.\<close>

lemma pickReady_branch:
  assumes "e = (case pickReady bs bn timeout p w of
                  (Inl err, w') \<Rightarrow> (Inl (f err), w')
                | (Inr utun, w') \<Rightarrow> (Inr (g utun), w'))"
  shows "clock_only w (snd e)"
proof -
  obtain r w' where p: "pickReady bs bn timeout p w = (r, w')"
    by (cases "pickReady bs bn timeout p w")
  then have "w' = snd (pickReady bs bn timeout p w)" by simp
  then have "clock_only w w'" by (simp add: pickReady_clock)
  with assms p show ?thesis by (cases r) simp_all
qed

lemma EnsureRunning_start_effect:
  "sends (starting w) w (snd (EnsureRunning_start bs bn timeout p w))"
  "same_env w (snd (EnsureRunning_start bs bn timeout p w))"
  "owned (snd (EnsureRunning_start bs bn timeout p w)) \<subseteq> owned w \<union> starting w"
  "pf_apply_calls (snd (EnsureRunning_start bs bn timeout p w)) = pf_apply_calls w"
  "fst (EnsureRunning_start bs bn timeout p w) = Inr st \<Longrightarrow>
     signals (snd (EnsureRunning_start bs bn timeout p w)) = signals w \<and> OwnedByUs st"
  "started_pids (snd (EnsureRunning_start bs bn timeout p w)) =
     started_pids w @ (case spawn w (now w) of None \<Rightarrow> [] | Some n \<Rightarrow> [int n])"
proof -
  let ?e = "EnsureRunning_start bs bn timeout p w"
  let ?new = "case spawn w (now w) of None \<Rightarrow> [] | Some n \<Rightarrow> [int n]"
  from EnsureRunning_start_cases[of w bs bn timeout p]
  consider
    (nostart) "spawn w (now w) = None" "?e = (Inl StartFailed, w)"
  | (nowrite) n where "spawn w (now w) = Some n"
      "?e = (Inl PidfileWrite, snd (stopPID (int n) (started n w)))"
  | (nowait) n err w3 where "spawn w (now w) = Some n"
      "waitForUTUNReady (Some bs) (Some bn) timeout p (recorded n w) = (Inl err, w3)"
      "?e = (Inl (StartedNoUtun err), removePidFile (snd (stopPID (int n) w3)))"
  | (ok) n utun w3 where "spawn w (now w) = Some n"
      "waitForUTUNReady (Some bs) (Some bn) timeout p (recorded n w) = (Inr utun, w3)"
      "?e = (Inr \<lparr>Running = True, PID = int n, OwnedByUs = True,
                   AdoptedExternal = False, NewUTUN = utun\<rparr>, w3)"
    by (elim disjE exE conjE) blast+
  then have "sends (starting w) w (snd ?e) \<and> same_env w (snd ?e)
      \<and> owned (snd ?e) \<subseteq> owned w \<union> starting w
      \<and> pf_apply_calls (snd ?e) = pf_apply_calls w
      \<and> (fst ?e = Inr st \<longrightarrow> signals (snd ?e) = signals w \<and> OwnedByUs st)
      \<and> started_pids (snd ?e) = started_pids w @ ?new"
  proof cases
    case nostart
    then show ?thesis by (simp add: sends_refl same_env_refl)
  next
    case (nowrite n)
    let ?w1 = "started n w"
    have st: "starting w = {int n}" using nowrite(1) by (simp add: starting_def)
    have "sends (starting w) w ?w1" by (simp add: sends_same started_fields)
    moreover have "sends (starting w) ?w1 (snd (stopPID (int n) ?w1))"
      using stopPID_sends[of "int n" ?w1] st by simp
    ultimately have s: "sends (starting w) w (snd (stopPID (int n) ?w1))"
      by (rule sends_trans)
    have e: "same_env w (snd (stopPID (int n) ?w1))"
      using started_fields(6)[of w n] stopPID_frame(3)[of ?w1 "int n"]
      by (rule same_env_trans)
    have o: "owned (snd (stopPID (int n) ?w1)) = owned w"
      by (simp add: owned_def readPID_def stopPID_frame started_fields)
    from s e o nowrite show ?thesis by (simp add: stopPID_frame started_fields)
  next
    case (nowait n err w3)
    have st: "starting w = {int n}" using nowait(1) by (simp add: starting_def)
    from nowait(2)
    have "w3 = snd (waitForUTUNReady (Some bs) (Some bn) timeout p (recorded n w))" by simp
    then have c: "clock_only (recorded n w) w3" by (simp add: waitForUTUNReady_clock)
    have "sends (starting w) w w3"
      using clock_only_fields(11)[OF c] by (simp add: sends_same recorded_fields)
    moreover have "sends (starting w) w3 (snd (stopPID (int n) w3))"
      using stopPID_sends[of "int n" w3] st by simp
    ultimately have "sends (starting w) w (snd (stopPID (int n) w3))"
      by (rule sends_trans)
    then have s: "sends (starting w) w (removePidFile (snd (stopPID (int n) w3)))"
      by (simp add: sends_def removePidFile_fields)
    have "same_env w w3"
      using recorded_fields(6)[of w n] clock_only_same_env[OF c] by (rule same_env_trans)
    then have "same_env w (snd (stopPID (int n) w3))"
      using stopPID_frame(3)[of w3 "int n"] by (rule same_env_trans)
    then have e: "same_env w (removePidFile (snd (stopPID (int n) w3)))"
      using removePidFile_fields(6) by (rule same_env_trans)
    have pf: "pf_apply_calls w3 = pf_apply_calls w"
      using clock_only_fields(13)[OF c] by (simp add: recorded_fields)
    have sp: "started_pids w3 = started_pids w @ [int n]"
      using clock_only_fields(16)[OF c] by (simp add: recorded_fields)
    have "pidfile w3 = PidText (int n)"
      using clock_only_fields(4)[OF c] by (simp add: recorded_fields)
    then have "owned (snd (stopPID (int n) w3)) \<subseteq> starting w"
      by (simp add: owned_def readPID_def stopPID_frame st)
    with owned_removePidFile[of "snd (stopPID (int n) w3)"]
    have o: "owned (removePidFile (snd (stopPID (int n) w3))) \<subseteq> owned w \<union> starting w"
      by auto
    from s e pf sp o nowait show ?thesis
      by (simp add: removePidFile_fields(2-7,10) stopPID_frame)
  next
    case (ok n utun w3)
    have st: "starting w = {int n}" using ok(1) by (simp add: starting_def)
    from ok(2)
    have "w3 = snd (waitForUTUNReady (Some bs) (Some bn) timeout p (recorded n w))" by simp
    then have c: "clock_only (recorded n w) w3" by (simp add: waitForUTUNReady_clock)
    have sg: "signals w3 = signals w"
      using clock_only_fields(11)[OF c] by (simp add: recorded_fields)
    have e: "same_env w w3"
      using recorded_fields(6)[of w n] clock_only_same_env[OF c] by (rule same_env_trans)
    have "pidfile w3 = PidText (int n)"
      using clock_only_fields(4)[OF c] by (simp add: recorded_fields)
    then have o: "owned w3 \<subseteq> starting w"
      by (simp add: owned_def readPID_def st)
    have pf: "pf_apply_calls w3 = pf_apply_calls w"
      using clock_only_fields(13)[OF c] by (simp add: recorded_fields)
    have sp: "started_pids w3 = started_pids w @ [int n]"
      using clock_only_fields(16)[OF c] by (simp add: recorded_fields)
    from sg e o pf sp ok show ?thesis by (auto simp: sends_same)
  qed
  then show "sends (starting w) w (snd ?e)" "same_env w (snd ?e)"
    "owned (snd ?e) \<subseteq> owned w \<union> starting w"
    "pf_apply_calls (snd ?e) = pf_apply_calls w"
    "fst ?e = Inr st \<Longrightarrow> signals (snd ?e) = signals w \<and> OwnedByUs st"
    "started_pids (snd ?e) = started_pids w @ ?new"
    by simp_all
qed

lemma clock_only_effect:
  assumes "clock_only w w'"
  shows "sends S w w'" "same_env w w'" "owned w' = owned w"
    "pf_apply_calls w' = pf_apply_calls w" "signals w' = signals w"
    "started_pids w' = started_pids w" "started_since w w' = {}"
  using clock_only_sends[OF assms] clock_only_same_env[OF assms] clock_only_reads(3)[OF assms]
    clock_only_fields(13)[OF assms] clock_only_fields(11)[OF assms]
    clock_only_fields(16)[OF assms] clock_only_reads(4)[OF assms]
  by simp_all

lemma EnsureRunning_effect:
  "sends (starting w) w (snd (EnsureRunning cfg timeout w))"
  "same_env w (snd (EnsureRunning cfg timeout w))"
  "owned (snd (EnsureRunning cfg timeout w)) \<subseteq> owned w \<union> starting w"
  "pf_apply_calls (snd (EnsureRunning cfg timeout w)) = pf_apply_calls w"
  "fst (EnsureRunning cfg timeout w) = Inr st \<Longrightarrow>
     signals (snd (EnsureRunning cfg timeout w)) = signals w"
  "fst (EnsureRunning cfg timeout w) = Inr st \<Longrightarrow> \<not> OwnedByUs st \<Longrightarrow>
     processAlive (PID st) w \<and> processAlive (PID st) (snd (EnsureRunning cfg timeout w))
     \<and> \<not> (snd (readPID w) \<and> processAlive (fst (readPID w)) w)"
  "take (length (started_pids w)) (started_pids (snd (EnsureRunning cfg timeout w)))
     = started_pids w"
  "sends (started_since w (snd (EnsureRunning cfg timeout w))) w
     (snd (EnsureRunning cfg timeout w))"
  "owned (snd (EnsureRunning cfg timeout w))
     \<subseteq> owned w \<union> started_since w (snd (EnsureRunning cfg timeout w))"
proof -
  let ?e = "EnsureRunning cfg timeout w"
  from EnsureRunning_cases[of w cfg timeout]
  consider
    (fails) "?e = (Inl ListUtunBefore, w)"
  | (owned) bs bn where
      "?e = (case pickReady bs bn timeout (tun_name w) w of
               (Inl err, w') \<Rightarrow> (Inl (OwnedNoUtun err), w')
             | (Inr utun, w') \<Rightarrow>
                 (Inr \<lparr>Running = True, PID = fst (readPID w), OwnedByUs = True,
                       AdoptedExternal = False, NewUTUN = utun\<rparr>, w'))"
  | (adopted) bs bn epid where
      "\<not> (snd (readPID w) \<and> processAlive (fst (readPID w)) w)"
      "findExternalSingBoxPID w = (epid, True)"
      "?e = (case pickReady bs bn timeout (tun_name w) w of
               (Inl err, w') \<Rightarrow> (Inl (AdoptedNoUtun epid err), w')
             | (Inr utun, w') \<Rightarrow>
                 (Inr \<lparr>Running = True, PID = epid, OwnedByUs = False,
                       AdoptedExternal = False, NewUTUN = utun\<rparr>, w'))"
  | (start) bs bn where "?e = EnsureRunning_start bs bn timeout (tun_name w) w"
    by (elim disjE exE conjE) blast+
  then have "sends (starting w) w (snd ?e) \<and> same_env w (snd ?e)
      \<and> owned (snd ?e) \<subseteq> owned w \<union> starting w
      \<and> pf_apply_calls (snd ?e) = pf_apply_calls w
      \<and> (fst ?e = Inr st \<longrightarrow> signals (snd ?e) = signals w)
      \<and> (fst ?e = Inr st \<and> \<not> OwnedByUs st \<longrightarrow>
           processAlive (PID st) w \<and> processAlive (PID st) (snd ?e)
           \<and> \<not> (snd (readPID w) \<and> processAlive (fst (readPID w)) w))
      \<and> take (length (started_pids w)) (started_pids (snd ?e)) = started_pids w
      \<and> sends (started_since w (snd ?e)) w (snd ?e)
      \<and> owned (snd ?e) \<subseteq> owned w \<union> started_since w (snd ?e)"
  proof cases
    case fails
    then show ?thesis by (simp add: sends_refl same_env_refl)
  next
    case (owned bs bn)
    from pickReady_branch[OF owned] have c: "clock_only w (snd ?e)" .
    have "OwnedByUs st" if "fst ?e = Inr st"
      using that owned
      by (cases "pickReady bs bn timeout (tun_name w) w") (auto split: sum.splits)
    with clock_only_effect[OF c] show ?thesis by auto
  next
    case (adopted bs bn epid)
    from pickReady_branch[OF adopted(3)] have c: "clock_only w (snd ?e)" .
    have "PID st = epid" if "fst ?e = Inr st"
      using that adopted(3)
      by (cases "pickReady bs bn timeout (tun_name w) w") (auto split: sum.splits)
    with clock_only_effect[OF c] clock_only_reads(1)[OF c, of epid] adopted(1)
      findExternalSingBoxPID_alive[OF adopted(2)]
    show ?thesis by auto
  next
    case (start bs bn)
    note se = EnsureRunning_start_effect
                [where w = w and bs = bs and bn = bn and timeout = timeout and p = "tun_name w"]
    from se(6) starting_set[of w]
    have ss: "started_since w (snd (EnsureRunning_start bs bn timeout (tun_name w) w)) = starting w"
      by (simp add: started_since_def)
    from se(6)
    have tk: "take (length (started_pids w))
                (started_pids (snd (EnsureRunning_start bs bn timeout (tun_name w) w)))
              = started_pids w"
      by simp
    from se(1) se(2) se(3) se(4) se(5)[of st] ss tk start show ?thesis by auto
  qed
  then show "sends (starting w) w (snd ?e)" "same_env w (snd ?e)"
    "owned (snd ?e) \<subseteq> owned w \<union> starting w"
    "pf_apply_calls (snd ?e) = pf_apply_calls w"
    "fst ?e = Inr st \<Longrightarrow> signals (snd ?e) = signals w"
    "fst ?e = Inr st \<Longrightarrow> \<not> OwnedByUs st \<Longrightarrow>
       processAlive (PID st) w \<and> processAlive (PID st) (snd ?e)
       \<and> \<not> (snd (readPID w) \<and> processAlive (fst (readPID w)) w)"
    "take (length (started_pids w)) (started_pids (snd ?e)) = started_pids w"
    "sends (started_since w (snd ?e)) w (snd ?e)"
    "owned (snd ?e) \<subseteq> owned w \<union> started_since w (snd ?e)"
    by simp_all
qed

section \<open>The recovery flow\<close>

lemma Inspect_OwnedByUs: "OwnedByUs (Inspect w) = snd (readPID w)"
  by (cases "readPID w") (simp add: Inspect_def)

lemma doRecovery_stop_phase:
  "(if OwnedByUs (Inspect w) then StopIfOwned w else (None, w)) = StopIfOwned w"
  by (simp add: Inspect_OwnedByUs StopIfOwned_no_record)

text \<open>What a run of the pf_apply script does to the world.\<close>

lemma run_pf_apply_world:
  "signals (snd (run_pf_apply cfg args w)) =
     signals w @ (case pf_apply_child w (now w) of
                    None \<Rightarrow> []
                  | Some (pid, killed) \<Rightarrow> if killed then [(int pid, SIGKILL)] else [])"
  "started_pids (snd (run_pf_apply cfg args w)) =
     started_pids w @ (case pf_apply_child w (now w) of
                         None \<Rightarrow> []
                       | Some (pid, killed) \<Rightarrow> [int pid])"
  "same_env w (snd (run_pf_apply cfg args w))"
  "pidfile (snd (run_pf_apply cfg args w)) = pidfile w"
  "alive (snd (run_pf_apply cfg args w)) = alive w"
  "now (snd (run_pf_apply cfg args w)) = now w"
  "pf_apply_calls (snd (run_pf_apply cfg args w)) = pf_apply_calls w @ [args]"
  by (simp_all add: run_pf_apply_def Let_def same_env_def split: option.splits prod.splits)

lemma run_pf_apply_signaled: "signaled w (snd (run_pf_apply cfg args w)) = killing w"
  by (simp add: signaled_def killing_def run_pf_apply_world split: option.splits prod.splits)

text \<open>
  The world after \<open>doRecovery\<close>: the one after \<open>StopIfOwned\<close> when that fails, else the one
  after \<open>EnsureRunning\<close>, and after one run of the pf_apply script if \<open>EnsureRunning\<close>
  reported a running process and an interface.
\<close>

lemma doRecovery_world:
  "(fst (StopIfOwned w) \<noteq> None
      \<and> snd (doRecovery cfg wan lan w) = snd (StopIfOwned w))
   \<or> (fst (StopIfOwned w) = None
      \<and> (\<forall>sb. fst (EnsureRunning cfg (SingBoxStartTimeout cfg) (snd (StopIfOwned w))) = Inr sb
               \<longrightarrow> \<not> Running sb \<or> NewUTUN sb = [])
      \<and> snd (doRecovery cfg wan lan w) =
            snd (EnsureRunning cfg (SingBoxStartTimeout cfg) (snd (StopIfOwned w))))
   \<or> (fst (StopIfOwned w) = None
      \<and> (\<exists>sb. fst (EnsureRunning cfg (SingBoxStartTimeout cfg) (snd (StopIfOwned w))) = Inr sb
               \<and> Running sb \<and> NewUTUN sb \<noteq> [])
      \<and> (\<exists>args. snd (doRecovery cfg wan lan w) =
            snd (run_pf_apply cfg args
                   (snd (EnsureRunning cfg (SingBoxStartTimeout cfg) (snd (StopIfOwned w)))))))"
proof -
  obtain r w1 where s: "StopIfOwned w = (r, w1)" by (cases "StopIfOwned w")
  show ?thesis
  proof (cases r)
    case (Some err)
    with s show ?thesis by (simp add: doRecovery_def Let_def doRecovery_stop_phase)
  next
    case None
    obtain e w2 where er: "EnsureRunning cfg (SingBoxStartTimeout cfg) w1 = (e, w2)"
      by (cases "EnsureRunning cfg (SingBoxStartTimeout cfg) w1")
    show ?thesis
    proof (cases e)
      case (Inl err)
      with s None er show ?thesis
        by (simp add: doRecovery_def Let_def doRecovery_stop_phase)
    next
      case (Inr sb)
      show ?thesis
      proof (cases "\<not> Running sb \<or> NewUTUN sb = []")
        case True
        with s None er Inr show ?thesis
          by (simp add: doRecovery_def Let_def doRecovery_stop_phase)
      next
        case False
        let ?args = "[''utun='' @ NewUTUN sb,
                      ''wan='' @ TrimSpace wan,
                      ''lan='' @ TrimSpace lan,
                      ''vpn_server_ips='' @ quoted (Join (VPNServerIPs cfg) '',''),
                      ''wan_dns='' @ quoted (Join (WANDNSIPs cfg) '',''),
                      ''allow_ntp='' @ (if AllowWANNTP cfg then ''true'' else ''false'')]"
        obtain res err w3 where rp: "run_pf_apply cfg ?args w2 = ((res, err), w3)"
          by (cases "run_pf_apply cfg ?args w2") auto
        with s None er Inr False
        have "snd (doRecovery cfg wan lan w) = w3"
          by (cases err) (simp_all add: doRecovery_def Let_def doRecovery_stop_phase)
        with rp have "snd (doRecovery cfg wan lan w) = snd (run_pf_apply cfg ?args w2)"
          by simp
        then have "\<exists>args. snd (doRecovery cfg wan lan w) = snd (run_pf_apply cfg args w2)"
          by blast
        with s None er Inr False show ?thesis by simp
      qed
    qed
  qed
qed

lemma supervised_refl: "supervised w w"
  by (simp add: supervised_def sends_refl same_env_refl started_since_def)

lemma supervised_trans:
  assumes "supervised w w'" and "supervised w' w''"
  shows "supervised w w''"
proof -
  from assms have p: "take (length (started_pids w)) (started_pids w') = started_pids w"
    "take (length (started_pids w')) (started_pids w'') = started_pids w'"
    by (simp_all add: supervised_def)
  note t = started_since_trans[OF p]
  from assms(1) t(1) have sub: "owned w' \<union> started_since w' w'' \<subseteq> owned w \<union> started_since w w''"
    by (auto simp: supervised_def)
  from assms(1) have "sends (owned w \<union> started_since w w') w w'" by (simp add: supervised_def)
  then have s1: "sends (owned w \<union> started_since w w'') w w'"
    by (rule sends_mono) (use t(1) in auto)
  from assms(2) have "sends (owned w' \<union> started_since w' w'') w' w''"
    by (simp add: supervised_def)
  then have "sends (owned w \<union> started_since w w'') w' w''" using sub by (rule sends_mono)
  with s1 have s: "sends (owned w \<union> started_since w w'') w w''" by (rule sends_trans)
  from assms have e: "same_env w w''"
    unfolding supervised_def using same_env_trans by blast
  from assms(2) sub have "owned w'' \<subseteq> owned w \<union> started_since w w''"
    by (auto simp: supervised_def)
  with s e t(2) show ?thesis by (simp add: supervised_def)
qed

lemma clock_only_supervised: "clock_only w w' \<Longrightarrow> supervised w w'"
proof -
  assume c: "clock_only w w'"
  from clock_only_effect(1)[OF c] clock_only_effect(2)[OF c] clock_only_effect(3)[OF c]
    clock_only_effect(6)[OF c]
  show ?thesis by (simp add: supervised_def)
qed

lemma StopIfOwned_supervised: "supervised w (snd (StopIfOwned w))"
proof -
  have "sends (owned w \<union> started_since w (snd (StopIfOwned w))) w (snd (StopIfOwned w))"
    using StopIfOwned_sends[of w] by (rule sends_mono) simp
  with StopIfOwned_frame(1,2,5)[of w] show ?thesis by (auto simp: supervised_def)
qed

lemma EnsureRunning_supervised: "supervised w (snd (EnsureRunning cfg timeout w))"
proof -
  let ?w' = "snd (EnsureRunning cfg timeout w)"
  have "sends (started_since w ?w') w ?w'" by (rule EnsureRunning_effect(8))
  then have s: "sends (owned w \<union> started_since w ?w') w ?w'"
    by (rule sends_mono) simp
  have e: "same_env w ?w'" by (rule EnsureRunning_effect(2))
  have o: "owned ?w' \<subseteq> owned w \<union> started_since w ?w'" by (rule EnsureRunning_effect(9))
  have t: "take (length (started_pids w)) (started_pids ?w') = started_pids w"
    by (rule EnsureRunning_effect(7))
  from s e o t show ?thesis by (simp add: supervised_def)
qed

lemma run_pf_apply_supervised: "supervised w (snd (run_pf_apply cfg args w))"
proof -
  let ?w' = "snd (run_pf_apply cfg args w)"
  have o: "owned ?w' = owned w" by (simp add: owned_def readPID_def run_pf_apply_world)
  have t: "take (length (started_pids w)) (started_pids ?w') = started_pids w"
    by (simp add: run_pf_apply_world)
  have "sends (started_since w ?w') w ?w'"
    by (simp add: sends_def started_since_def run_pf_apply_world
             split: option.splits prod.splits)
  then have "sends (owned w \<union> started_since w ?w') w ?w'"
    by (rule sends_mono) simp
  with o t run_pf_apply_world(3)[of w cfg args] show ?thesis by (simp add: supervised_def)
qed

lemma doRecovery_supervised: "supervised w (snd (doRecovery cfg wan lan w))"
proof -
  let ?w1 = "snd (StopIfOwned w)"
  let ?w2 = "snd (EnsureRunning cfg (SingBoxStartTimeout cfg) ?w1)"
  have 1: "supervised w ?w1" by (rule StopIfOwned_supervised)
  have 2: "supervised w ?w2"
    using 1 EnsureRunning_supervised by (rule supervised_trans)
  have 3: "supervised w (snd (run_pf_apply cfg args ?w2))" for args
    using 2 run_pf_apply_supervised by (rule supervised_trans)
  from doRecovery_world[of w cfg wan lan] 1 2 3 show ?thesis by auto
qed

lemma pass_supervised: "supervised (os st) (os (cmdRun_pass cfg url wan lan env st))"
proof -
  have s: "supervised w (Sleep d w)" for d w
    using clock_only_Sleep by (rule clock_only_supervised)
  have r: "supervised (os st) (Sleep d (snd (doRecovery cfg wan lan (os st))))" for d
    using doRecovery_supervised s by (rule supervised_trans)
  have "supervised (os st) (Sleep (ticker_wait env) (Sleep d (snd (doRecovery cfg wan lan (os st)))))"
    for d
    using r s by (rule supervised_trans)
  with s show ?thesis by (simp add: pass_os)
qed

lemma loop_supervised: "supervised (os st) (os (cmdRun_loop cfg url wan lan envs st))"
proof (induction envs arbitrary: st)
  case Nil
  then show ?case by (simp add: supervised_refl)
next
  case (Cons env envs)
  have "supervised (os st) (os (cmdRun_pass cfg url wan lan env st))"
    by (rule pass_supervised)
  then have "supervised (os st)
               (os (cmdRun_loop cfg url wan lan envs (cmdRun_pass cfg url wan lan env st)))"
    using Cons.IH by (rule supervised_trans)
  then show ?case by simp
qed

text \<open>A process adopted by the recovery flow has not been sent a signal by it.\<close>

lemma StopIfOwned_signaled_gone:
  assumes "fst (StopIfOwned w) = None" and "p \<in> signaled w (snd (StopIfOwned w))"
  shows "\<not> processAlive p (snd (StopIfOwned w))"
proof -
  let ?pid = "fst (readPID w)"
  from StopIfOwned_cases[of w] assms(1)
  consider
    (quiet) "signals (snd (StopIfOwned w)) = signals w"
  | (stopped) "snd (readPID w)" "\<not> processAlive ?pid (snd (stopPID ?pid w))"
      "StopIfOwned w = (None, removePidFile (snd (stopPID ?pid w)))"
    by (elim disjE conjE) (simp_all add: removePidFile_fields)
  then show ?thesis
  proof cases
    case quiet
    with assms(2) show ?thesis by (simp add: signaled_def)
  next
    case stopped
    from sends_signaled[OF StopIfOwned_sends[of w]] assms(2) owned_pid[OF stopped(1)]
    have "p = ?pid" by auto
    with stopped(2,3) show ?thesis by (simp add: removePidFile_fields)
  qed
qed

lemma StopIfOwned_failed_owned:
  assumes "fst (StopIfOwned w) \<noteq> None"
  shows "snd (readPID (snd (StopIfOwned w)))
         \<and> processAlive (fst (readPID (snd (StopIfOwned w)))) (snd (StopIfOwned w))"
proof -
  let ?pid = "fst (readPID w)"
  from StopIfOwned_cases[of w] assms
  have c: "snd (readPID w)" "processAlive ?pid (snd (stopPID ?pid w))"
    "snd (StopIfOwned w) = snd (stopPID ?pid w)"
    by auto
  have "readPID (snd (stopPID ?pid w)) = readPID w" by (simp add: readPID_def stopPID_frame)
  with c show ?thesis by simp
qed

lemma signaled_append:
  assumes "take (length (signals w)) (signals w') = signals w"
    and "signals w'' = signals w' @ sigs"
  shows "signaled w w'' = signaled w w' \<union> (\<lambda>s. \<bar>fst s\<bar>) ` set sigs"
proof -
  from assms(1) have "signals w' = signals w @ drop (length (signals w)) (signals w')"
    by (metis append_take_drop_id)
  then obtain a where a: "signals w' = signals w @ a" ..
  with assms(2) show ?thesis by (simp add: signaled_def image_Un)
qed

lemma doRecovery_adopted_not_signaled:
  assumes "fst (EnsureRunning cfg (SingBoxStartTimeout cfg) (snd (StopIfOwned w))) = Inr st"
    and "\<not> OwnedByUs st"
    and fresh: "\<forall>n k. pf_apply_child
                  (snd (EnsureRunning cfg (SingBoxStartTimeout cfg) (snd (StopIfOwned w))))
                  (now (snd (EnsureRunning cfg (SingBoxStartTimeout cfg) (snd (StopIfOwned w)))))
                = Some (n, k) \<longrightarrow>
              \<not> processAlive (int n)
                  (snd (EnsureRunning cfg (SingBoxStartTimeout cfg) (snd (StopIfOwned w))))"
  shows "PID st \<notin> signaled w (snd (doRecovery cfg wan lan w))"
proof -
  let ?w1 = "snd (StopIfOwned w)"
  let ?w2 = "snd (EnsureRunning cfg (SingBoxStartTimeout cfg) ?w1)"
  note ad = EnsureRunning_effect(6)[OF assms(1,2)]
  have ok: "fst (StopIfOwned w) = None"
  proof (rule ccontr)
    assume "fst (StopIfOwned w) \<noteq> None"
    from StopIfOwned_failed_owned[OF this] ad show False by simp
  qed
  have s2: "signals ?w2 = signals ?w1" by (rule EnsureRunning_effect(5)[OF assms(1)])
  then have g2: "signaled w ?w2 = signaled w ?w1" by (simp add: signaled_def)
  from StopIfOwned_signaled_gone[OF ok, of "PID st"] ad
  have n1: "PID st \<notin> signaled w ?w1" by auto
  have pre: "take (length (signals w)) (signals ?w2) = signals w"
    using sends_prefix[OF StopIfOwned_sends[of w]] s2 by simp
  have nk: "PID st \<notin> killing ?w2"
  proof
    assume "PID st \<in> killing ?w2"
    then obtain n k where "pf_apply_child ?w2 (now ?w2) = Some (n, k)" "PID st = int n"
      by (auto simp: killing_def split: option.splits prod.splits if_splits)
    with fresh ad show False by auto
  qed
  from doRecovery_world[of w cfg wan lan] ok
  consider "snd (doRecovery cfg wan lan w) = ?w2"
    | args where "snd (doRecovery cfg wan lan w) = snd (run_pf_apply cfg args ?w2)"
    by auto
  then show ?thesis
  proof cases
    case 1
    with g2 n1 show ?thesis by simp
  next
    case (2 args)
    let ?k = "case pf_apply_child ?w2 (now ?w2) of
                None \<Rightarrow> []
              | Some (pid, killed) \<Rightarrow> if killed then [(int pid, SIGKILL)] else []"
    have "signals (snd (run_pf_apply cfg args ?w2)) = signals ?w2 @ ?k"
      by (rule run_pf_apply_world(1))
    from signaled_append[OF pre this]
    have "signaled w (snd (run_pf_apply cfg args ?w2)) =
            signaled w ?w2 \<union> (\<lambda>s. \<bar>fst s\<bar>) ` set ?k" .
    moreover have "(\<lambda>s. \<bar>fst s\<bar>) ` set ?k = killing ?w2"
      by (simp add: killing_def split: option.splits prod.splits)
    ultimately show ?thesis using 2 g2 n1 nk by simp
  qed
qed

text \<open>
  Claim C1, as amended. A signal is sent only to the process whose pid the ownership
  record gives, or to a process that the supervisor has started itself in the same
  operation: the sing-box process that the same \<open>EnsureRunning\<close> call has just started
  (which it stops again when the record cannot be written or no interface appears), or
  the process of the pf_apply script, which the command runner kills when the script
  has not ended at its deadline. \<open>StopIfOwned\<close> and \<open>StopOwned\<close> signal nothing but the
  recorded process; \<open>EnsureRunning\<close> signals nothing but the process it starts, and
  nothing at all when it returns a status, owned or adopted; a run of the pf_apply
  script signals nothing but its own process, at the deadline; \<open>doRecovery\<close>, and every
  run of the watchdog loop, signal nothing but the process recorded when they begin and
  processes started since, and only add to the signals sent before. A process that
  \<open>EnsureRunning\<close> adopts inside \<open>doRecovery\<close> (it returns a status with
  \<open>OwnedByUs = false\<close>) is not among those that this \<open>doRecovery\<close> has signaled, given that
  the process of the pf_apply script, a new process, does not carry the pid of a
  process that is alive when it starts.
\<close>

theorem signals_only_to_owned_or_started:
  "signaled w (snd (StopIfOwned w)) \<subseteq> owned w
   \<and> signaled w (snd (StopOwned sel w)) \<subseteq> owned w
   \<and> signaled w (snd (EnsureRunning cfg timeout w)) \<subseteq> starting w
   \<and> (\<forall>st. fst (EnsureRunning cfg timeout w) = Inr st \<longrightarrow>
          signals (snd (EnsureRunning cfg timeout w)) = signals w)
   \<and> signaled w (snd (run_pf_apply cfg args w)) = killing w
   \<and> killing w \<subseteq> started_since w (snd (run_pf_apply cfg args w))
   \<and> signaled w (snd (doRecovery cfg wan lan w))
       \<subseteq> owned w \<union> started_since w (snd (doRecovery cfg wan lan w))
   \<and> take (length (signals w)) (signals (snd (doRecovery cfg wan lan w))) = signals w
   \<and> (\<forall>st. fst (EnsureRunning cfg (SingBoxStartTimeout cfg) (snd (StopIfOwned w))) = Inr st
          \<and> \<not> OwnedByUs st
          \<and> (\<forall>n k. pf_apply_child
                  (snd (EnsureRunning cfg (SingBoxStartTimeout cfg) (snd (StopIfOwned w))))
                  (now (snd (EnsureRunning cfg (SingBoxStartTimeout cfg) (snd (StopIfOwned w)))))
                = Some (n, k) \<longrightarrow>
              \<not> processAlive (int n)
                  (snd (EnsureRunning cfg (SingBoxStartTimeout cfg) (snd (StopIfOwned w)))))
          \<longrightarrow> PID st \<notin> signaled w (snd (doRecovery cfg wan lan w)))
   \<and> signaled (os ws) (os (cmdRun_loop cfg url wan lan envs ws))
       \<subseteq> owned (os ws) \<union> started_since (os ws) (os (cmdRun_loop cfg url wan lan envs ws))
   \<and> take (length (signals (os ws))) (signals (os (cmdRun_loop cfg url wan lan envs ws)))
       = signals (os ws)"
proof (intro conjI allI impI)
  show "signaled w (snd (StopIfOwned w)) \<subseteq> owned w"
    using StopIfOwned_sends by (rule sends_signaled)
  show "signaled w (snd (StopOwned sel w)) \<subseteq> owned w"
    using StopOwned_sends by (rule sends_signaled)
  show "signaled w (snd (EnsureRunning cfg timeout w)) \<subseteq> starting w"
    using EnsureRunning_effect(1) by (rule sends_signaled)
  show "signals (snd (EnsureRunning cfg timeout w)) = signals w"
    if "fst (EnsureRunning cfg timeout w) = Inr st" for st
    using that by (rule EnsureRunning_effect(5))
  show "signaled w (snd (run_pf_apply cfg args w)) = killing w"
    by (rule run_pf_apply_signaled)
  show "killing w \<subseteq> started_since w (snd (run_pf_apply cfg args w))"
    by (simp add: killing_def started_since_def run_pf_apply_world
             split: option.splits prod.splits)
  have d: "sends (owned w \<union> started_since w (snd (doRecovery cfg wan lan w))) w
             (snd (doRecovery cfg wan lan w))"
    using doRecovery_supervised[of w cfg wan lan] by (simp add: supervised_def)
  from d show "signaled w (snd (doRecovery cfg wan lan w))
       \<subseteq> owned w \<union> started_since w (snd (doRecovery cfg wan lan w))"
    by (rule sends_signaled)
  from d show "take (length (signals w)) (signals (snd (doRecovery cfg wan lan w))) = signals w"
    by (rule sends_prefix)
  show "PID st \<notin> signaled w (snd (doRecovery cfg wan lan w))"
    if "fst (EnsureRunning cfg (SingBoxStartTimeout cfg) (snd (StopIfOwned w))) = Inr st
          \<and> \<not> OwnedByUs st
          \<and> (\<forall>n k. pf_apply_child
                  (snd (EnsureRunning cfg (SingBoxStartTimeout cfg) (snd (StopIfOwned w))))
                  (now (snd (EnsureRunning cfg (SingBoxStartTimeout cfg) (snd (StopIfOwned w)))))
                = Some (n, k) \<longrightarrow>
              \<not> processAlive (int n)
                  (snd (EnsureRunning cfg (SingBoxStartTimeout cfg) (snd (StopIfOwned w)))))"
    for st
  proof (rule doRecovery_adopted_not_signaled)
    from that
    show "fst (EnsureRunning cfg (SingBoxStartTimeout cfg) (snd (StopIfOwned w))) = Inr st"
      by (rule conjunct1)
    from that show "\<not> OwnedByUs st" by simp
    from that
    show "\<forall>n k. pf_apply_child
                  (snd (EnsureRunning cfg (SingBoxStartTimeout cfg) (snd (StopIfOwned w))))
                  (now (snd (EnsureRunning cfg (SingBoxStartTimeout cfg) (snd (StopIfOwned w)))))
                = Some (n, k) \<longrightarrow>
              \<not> processAlive (int n)
                  (snd (EnsureRunning cfg (SingBoxStartTimeout cfg) (snd (StopIfOwned w))))"
      by (elim conjE)
  qed
  have l: "sends (owned (os ws)
                  \<union> started_since (os ws) (os (cmdRun_loop cfg url wan lan envs ws)))
             (os ws) (os (cmdRun_loop cfg url wan lan envs ws))"
    using loop_supervised[of ws cfg url wan lan envs] by (simp add: supervised_def)
  from l show "signaled (os ws) (os (cmdRun_loop cfg url wan lan envs ws))
       \<subseteq> owned (os ws) \<union> started_since (os ws) (os (cmdRun_loop cfg url wan lan envs ws))"
    by (rule sends_signaled)
  from l show "take (length (signals (os ws)))
        (signals (os (cmdRun_loop cfg url wan lan envs ws))) = signals (os ws)"
    by (rule sends_prefix)
qed

lemma cfg_defaults_start_timeout: "SingBoxStartTimeout cfg_defaults = 8 * Second"
  by (simp add: cfg_defaults_def cfg_file_def applyDefaults_def)

lemma overrun_world_adopted:
  "EnsureRunning cfg_defaults (8 * Second) overrun_world =
     (Inr \<lparr>Running = True, PID = 777, OwnedByUs = False, AdoptedExternal = False,
           NewUTUN = ''utun4''\<rparr>, overrun_world)"
proof -
  have before: "listUTUN overrun_world = Some ([''utun0'', ''utun4''], [''utun0''])"
    by (simp add: overrun_world_def world_eval)
  have not_owned:
    "\<not> (snd (readPID overrun_world) \<and> processAlive (fst (readPID overrun_world)) overrun_world)"
    by (simp add: overrun_world_def world_eval)
  have found: "findExternalSingBoxPID overrun_world = (777, True)"
    by (simp add: overrun_world_def world_eval)
  have ready: "pickReady [''utun0'', ''utun4''] [''utun0''] (8 * Second)
                 (tun_name overrun_world) overrun_world = (Inr ''utun4'', overrun_world)"
    by (simp add: overrun_world_def world_eval)
  from EnsureRunning_adopts[OF cfg_defaults_adopt before not_owned found, of "8 * Second"] ready
  show ?thesis by simp
qed

lemma overrun_world_reads:
  "\<not> snd (readPID overrun_world)" "signals overrun_world = []"
  "pf_apply_child overrun_world t = Some (5150, True)"
  "\<not> processAlive 5150 overrun_world" "pidfile overrun_world = NoFile"
  by (simp_all add: overrun_world_def world_eval)

text \<open>
  The theorem at a world without ownership record in which an external sing-box (pid
  777) runs and the pf_apply script (process 5150) has not ended at its deadline: the
  recovery flow adopts the external process and sends no signal to it. The process of
  the script does not carry the pid of a live process.
\<close>

theorem signals_only_to_owned_or_started_witness:
  "fst (EnsureRunning cfg_defaults (SingBoxStartTimeout cfg_defaults)
          (snd (StopIfOwned overrun_world)))
     = Inr \<lparr>Running = True, PID = 777, OwnedByUs = False, AdoptedExternal = False,
            NewUTUN = ''utun4''\<rparr>
   \<and> \<not> OwnedByUs \<lparr>Running = True, PID = 777, OwnedByUs = False, AdoptedExternal = False,
                   NewUTUN = ''utun4''\<rparr>
   \<and> snd (EnsureRunning cfg_defaults (SingBoxStartTimeout cfg_defaults)
            (snd (StopIfOwned overrun_world))) = overrun_world
   \<and> pf_apply_child overrun_world (now overrun_world) = Some (5150, True)
   \<and> \<not> processAlive 5150 overrun_world
   \<and> 777 \<notin> signaled overrun_world (snd (doRecovery cfg_defaults [] [] overrun_world))
   \<and> signals (snd (EnsureRunning cfg_defaults (8 * Second) overrun_world))
       = signals overrun_world"
proof -
  let ?st = "\<lparr>Running = True, PID = 777, OwnedByUs = False, AdoptedExternal = False,
              NewUTUN = ''utun4''\<rparr>"
  let ?w2 = "snd (EnsureRunning cfg_defaults (SingBoxStartTimeout cfg_defaults)
                    (snd (StopIfOwned overrun_world)))"
  note inst = signals_only_to_owned_or_started
                [of overrun_world "[]" cfg_defaults "8 * Second" "[]" "[]" "[]"]
  have s: "StopIfOwned overrun_world = (None, overrun_world)"
    using overrun_world_reads(1) by (rule StopIfOwned_no_record)
  have w2: "?w2 = overrun_world"
    by (simp add: s cfg_defaults_start_timeout overrun_world_adopted)
  have a: "fst (EnsureRunning cfg_defaults (SingBoxStartTimeout cfg_defaults)
                  (snd (StopIfOwned overrun_world))) = Inr ?st"
    by (simp add: s cfg_defaults_start_timeout overrun_world_adopted)
  have b: "\<not> OwnedByUs ?st" by simp
  have f: "\<forall>n k. pf_apply_child ?w2 (now ?w2) = Some (n, k) \<longrightarrow> \<not> processAlive (int n) ?w2"
    unfolding w2 using overrun_world_reads(4) by (auto simp: overrun_world_reads(3))
  from inst a b f
  have c: "PID ?st \<notin> signaled overrun_world (snd (doRecovery cfg_defaults [] [] overrun_world))"
    by blast
  have "fst (EnsureRunning cfg_defaults (8 * Second) overrun_world) = Inr ?st"
    by (simp add: overrun_world_adopted)
  with inst have d: "signals (snd (EnsureRunning cfg_defaults (8 * Second) overrun_world))
                       = signals overrun_world"
    by blast
  from a b c d w2 show ?thesis by (simp add: overrun_world_reads)
qed

lemma readonly_world_reads:
  "listUTUN readonly_world = Some ([], [])" "readPID readonly_world = (0, False)"
  "findExternalSingBoxPID readonly_world = (0, False)"
  "spawn readonly_world (now readonly_world) = Some 4242"
  "\<not> pidfile_writable readonly_world" "signals readonly_world = []"
  "pidfile readonly_world = NoFile" "exits_on_term readonly_world = {4242}"
  by (simp_all add: readonly_world_def quiet_world_def listUTUN_def readPID_def
        findExternalSingBoxPID_def)

text \<open>
  Claim C1 as stated lets signals go only to a process whose pid was read from the
  ownership record. In a world without a record in which sing-box can be started (as
  process 4242) and the pid file cannot be written, \<open>EnsureRunning\<close> starts the process,
  fails to record it and stops it again: \<open>SIGTERM\<close> goes to the group and to the process
  4242, whose pid no ownership record held before, during or after the call. And in
  the world without a record in which the pf_apply script has not ended at its
  deadline, \<open>doRecovery\<close> returns the time-out of the script, whose process, 5150, has
  been sent \<open>SIGKILL\<close>; there is no record before or after.
\<close>

theorem unrecorded_process_signaled_counterexample:
  "readPID readonly_world = (0, False)
   \<and> fst (EnsureRunning cfg_defaults (8 * Second) readonly_world) = Inl PidfileWrite
   \<and> signals (snd (EnsureRunning cfg_defaults (8 * Second) readonly_world))
       = [(- 4242, SIGTERM), (4242, SIGTERM)]
   \<and> pidfile (snd (EnsureRunning cfg_defaults (8 * Second) readonly_world)) = NoFile
   \<and> readPID overrun_world = (0, False)
   \<and> signals (snd (doRecovery cfg_defaults [] [] overrun_world)) = [(5150, SIGKILL)]
   \<and> pidfile (snd (doRecovery cfg_defaults [] [] overrun_world)) = NoFile"
proof -
  have "EnsureRunning cfg_defaults (8 * Second) readonly_world =
          EnsureRunning_start [] [] (8 * Second) (tun_name readonly_world) readonly_world"
    by (rule EnsureRunning_starts) (simp_all add: readonly_world_reads)
  also have "\<dots> = (Inl PidfileWrite, snd (stopPID 4242 (started 4242 readonly_world)))"
    using EnsureRunning_start_cases
            [of readonly_world "[]" "[]" "8 * Second" "tun_name readonly_world"]
    by (simp add: readonly_world_reads)
  finally have e: "EnsureRunning cfg_defaults (8 * Second) readonly_world =
                     (Inl PidfileWrite, snd (stopPID 4242 (started 4242 readonly_world)))" .
  have "\<not> processAlive 4242
           (Kill 4242 SIGTERM (Kill (- 4242) SIGTERM (started 4242 readonly_world)))"
    by (simp add: processAlive_def Kill_alive Kill_fields started_fields readonly_world_reads)
  then have "signals (snd (stopPID 4242 (started 4242 readonly_world))) =
               [(- 4242, SIGTERM), (4242, SIGTERM)]"
    by (simp add: stopPID_signals started_fields readonly_world_reads)
  with e have a: "fst (EnsureRunning cfg_defaults (8 * Second) readonly_world) = Inl PidfileWrite"
    "signals (snd (EnsureRunning cfg_defaults (8 * Second) readonly_world))
       = [(- 4242, SIGTERM), (4242, SIGTERM)]"
    "pidfile (snd (EnsureRunning cfg_defaults (8 * Second) readonly_world)) = NoFile"
    by (simp_all add: stopPID_frame started_fields readonly_world_reads)
  let ?w2 = "snd (EnsureRunning cfg_defaults (SingBoxStartTimeout cfg_defaults)
                    (snd (StopIfOwned overrun_world)))"
  have s: "StopIfOwned overrun_world = (None, overrun_world)"
    using overrun_world_reads(1) by (rule StopIfOwned_no_record)
  have w2: "?w2 = overrun_world"
    by (simp add: s cfg_defaults_start_timeout overrun_world_adopted)
  have st: "fst (EnsureRunning cfg_defaults (SingBoxStartTimeout cfg_defaults)
                   (snd (StopIfOwned overrun_world)))
              = Inr \<lparr>Running = True, PID = 777, OwnedByUs = False, AdoptedExternal = False,
                     NewUTUN = ''utun4''\<rparr>"
    by (simp add: s cfg_defaults_start_timeout overrun_world_adopted)
  from doRecovery_world[of overrun_world cfg_defaults "[]" "[]"] s st
  obtain args where
    "snd (doRecovery cfg_defaults [] [] overrun_world) = snd (run_pf_apply cfg_defaults args ?w2)"
    by auto
  then have r: "snd (doRecovery cfg_defaults [] [] overrun_world) =
                  snd (run_pf_apply cfg_defaults args overrun_world)"
    by (simp only: w2)
  have b: "signals (snd (doRecovery cfg_defaults [] [] overrun_world)) = [(5150, SIGKILL)]"
    "pidfile (snd (doRecovery cfg_defaults [] [] overrun_world)) = NoFile"
    by (simp_all add: r run_pf_apply_world overrun_world_reads)
  have c: "readPID overrun_world = (0, False)"
    by (simp add: readPID_def overrun_world_reads)
  from a b c show ?thesis by (simp add: readonly_world_reads)
qed

end
